theory Spec2Isabelle
  imports Main
begin

section \<open>Values shared by the store and the page combinator\<close>

text \<open>
  A Go \<^verbatim>\<open>[]byte\<close> and a Go \<^verbatim>\<open>string\<close> are both sequences of bytes, and
  \<^verbatim>\<open>s2b\<close> reinterprets one as the other without changing a byte, so both are
  \<^typ>\<open>string\<close> here and \<^verbatim>\<open>s2b\<close> is the identity. A nil slice is the empty list.
  A \<^verbatim>\<open>time.Time\<close> is represented by the value of its \<^verbatim>\<open>UnixNano()\<close>.
  Go's \<^verbatim>\<open>int\<close> is taken as 64 bits wide (so \<^verbatim>\<open>int(total)\<close> is the identity on an
  \<^verbatim>\<open>int64\<close>); the addition of two of them wraps, which \<open>wrap64\<close> writes out.
\<close>

type_synonym bytes = string
type_synonym time = int

datatype error = Err string | Wrap string error

definition wrap64 :: "int \<Rightarrow> int" where
  "wrap64 x = (x + 2 ^ 63) mod 2 ^ 64 - 2 ^ 63"

text \<open>A Go call returns or panics.\<close>

datatype 'a call = Panic | Return 'a

section \<open>Sequences (\<^verbatim>\<open>iter.Seq2[[]byte, error]\<close>)\<close>

text \<open>
  A page's sequence is the finite list of the steps it takes when it is ranged over: it
  hands a pair to \<^verbatim>\<open>yield\<close>, or it panics (\<open>Crash\<close>). The sequences built by
  \<^verbatim>\<open>FetchPage\<close>, \<^verbatim>\<open>FetchPageConsistent\<close> and the tests range over a slice, so they are of
  this form. \<open>NilSeq\<close> is the nil function value, which the test's page source returns.
  The consumer is the \<^verbatim>\<open>yield\<close> function: it receives the pair, updates the consumer's own
  state and answers whether it wants more.
\<close>

type_synonym item = "bytes \<times> error option"

datatype step = Emit bytes "error option" | Crash

datatype seq2 = NilSeq | Seq "step list"

type_synonym 'c yielder = "item \<Rightarrow> 'c \<Rightarrow> bool \<times> 'c"

text \<open>What a run does, in order: the page-fetch calls (offset, limit and the error
  returned, if any) and the pairs yielded, each with the consumer's answer.\<close>

datatype event = Fetch int int "error option" | FetchPanic int int | Yielded item bool

datatype flow = Exhausted | Stopped | Panicked

fun drain :: "step list \<Rightarrow> 'c yielder \<Rightarrow> 'c \<Rightarrow> flow \<times> event list \<times> 'c" where
  "drain [] yield c = (Exhausted, [], c)"
| "drain (Crash # rest) yield c = (Panicked, [], c)"
| "drain (Emit b e # rest) yield c =
     (case yield (b, e) c of
        (True, c') \<Rightarrow>
          (case drain rest yield c' of (f, tr, c'') \<Rightarrow> (f, Yielded (b, e) True # tr, c''))
      | (False, c') \<Rightarrow> (Stopped, [Yielded (b, e) False], c'))"

fun range_seq2 :: "seq2 \<Rightarrow> 'c yielder \<Rightarrow> 'c \<Rightarrow> flow \<times> event list \<times> 'c" where
  "range_seq2 NilSeq yield c = (Panicked, [], c)"
| "range_seq2 (Seq steps) yield c = drain steps yield c"

section \<open>The page combinator (\<^verbatim>\<open>Paginate\<close>)\<close>

text \<open>
  A \<^verbatim>\<open>PageFunc\<close> takes \<^verbatim>\<open>from\<close>, \<^verbatim>\<open>to\<close>, \<^verbatim>\<open>offset\<close> and \<^verbatim>\<open>limit\<close>, acts on the world
  \<open>'w\<close> it talks to, and returns the triple of sequence, total and error.
\<close>

type_synonym 'w PageFunc =
  "time option \<Rightarrow> time option \<Rightarrow> int \<Rightarrow> int \<Rightarrow> 'w \<Rightarrow> (seq2 \<times> int \<times> error option) call \<times> 'w"

text \<open>The variables the closure returned by \<^verbatim>\<open>Paginate\<close> captures.\<close>

record 'w closure =
  c_pageFn :: "'w PageFunc"
  c_from :: "time option"
  c_to :: "time option"
  c_offset :: int
  c_limit :: int
  c_it :: seq2
  c_total :: int

datatype 'w paginated = Single seq2 | Composite "'w closure"

definition Paginate ::
  "'w PageFunc \<Rightarrow> time option \<Rightarrow> time option \<Rightarrow> int \<Rightarrow> int \<Rightarrow> 'w
     \<Rightarrow> ('w paginated \<times> error option) call \<times> event list \<times> 'w" where
  "Paginate pageFn from to offset limit w =
     (case pageFn from to offset limit w of
        (Panic, w') \<Rightarrow> (Panic, [FetchPanic offset limit], w')
      | (Return (it, tot, Some err), w') \<Rightarrow>
          (Return (Single NilSeq, Some (Wrap ''fetching first page failed'' err)),
           [Fetch offset limit (Some err)], w')
      | (Return (it, tot, None), w') \<Rightarrow>
          (if tot \<le> limit then (Return (Single it, None), [Fetch offset limit None], w')
           else (Return (Composite \<lparr>c_pageFn = pageFn, c_from = from, c_to = to,
                    c_offset = offset, c_limit = limit, c_it = it, c_total = tot\<rparr>, None),
                 [Fetch offset limit None], w')))"

text \<open>
  The body of the closure: the outer \<^verbatim>\<open>for\<close> has no condition, so the recursion is
  bounded by fuel and running out of it is \<open>None\<close>.
\<close>

fun composite ::
  "nat \<Rightarrow> 'w PageFunc \<Rightarrow> time option \<Rightarrow> time option \<Rightarrow> int \<Rightarrow> seq2 \<Rightarrow> int \<Rightarrow> int
     \<Rightarrow> 'c yielder \<Rightarrow> 'w \<Rightarrow> 'c \<Rightarrow> (unit call \<times> event list \<times> 'w \<times> 'c) option" where
  "composite 0 pageFn from to limit it tot offset yield w c = None"
| "composite (Suc n) pageFn from to limit it tot offset yield w c =
     (case range_seq2 it yield c of
        (Panicked, tr, c') \<Rightarrow> Some (Panic, tr, w, c')
      | (Stopped, tr, c') \<Rightarrow> Some (Return (), tr, w, c')
      | (Exhausted, tr, c') \<Rightarrow>
          (let offset' = wrap64 (offset + limit) in
           if offset' \<ge> tot then Some (Return (), tr, w, c')
           else
             (case pageFn from to offset' limit w of
                (Panic, w') \<Rightarrow> Some (Panic, tr @ [FetchPanic offset' limit], w', c')
              | (Return (it', tot', Some err), w') \<Rightarrow>
                  (let e = Wrap ''fetching next page failed'' err in
                   case yield ([], Some e) c' of
                     (k, c'') \<Rightarrow>
                       Some (Return (),
                             tr @ [Fetch offset' limit (Some err), Yielded ([], Some e) k],
                             w', c''))
              | (Return (it', tot', None), w') \<Rightarrow>
                  (case composite n pageFn from to limit it' tot' offset' yield w' c' of
                     None \<Rightarrow> None
                   | Some (r, tr', w'', c'') \<Rightarrow>
                       Some (r, tr @ Fetch offset' limit None # tr', w'', c'')))))"

text \<open>
  The closure's loop after \<open>k\<close> more pages: each time the page at hand was drained with
  the consumer accepting every pair, the advanced offset was below the total and the
  page-fetch call succeeded. The result is what has happened so far and the variables of
  the loop at that point; \<open>None\<close> when the run does not get that far.
\<close>

fun advance ::
  "nat \<Rightarrow> 'w PageFunc \<Rightarrow> time option \<Rightarrow> time option \<Rightarrow> int \<Rightarrow> seq2 \<Rightarrow> int \<Rightarrow> int
     \<Rightarrow> 'c yielder \<Rightarrow> 'w \<Rightarrow> 'c \<Rightarrow> (event list \<times> seq2 \<times> int \<times> int \<times> 'w \<times> 'c) option" where
  "advance 0 pageFn from to limit it tot offset yield w c = Some ([], it, tot, offset, w, c)"
| "advance (Suc k) pageFn from to limit it tot offset yield w c =
     (case range_seq2 it yield c of
        (Exhausted, tr, c') \<Rightarrow>
          (let offset' = wrap64 (offset + limit) in
           if offset' \<ge> tot then None
           else
             (case pageFn from to offset' limit w of
                (Return (it', tot', None), w') \<Rightarrow>
                  (case advance k pageFn from to limit it' tot' offset' yield w' c' of
                     None \<Rightarrow> None
                   | Some (tr', st) \<Rightarrow> Some (tr @ Fetch offset' limit None # tr', st))
              | other \<Rightarrow> None))
      | other \<Rightarrow> None)"

text \<open>Ranging over what \<^verbatim>\<open>Paginate\<close> returned.\<close>

fun range_paginated ::
  "nat \<Rightarrow> 'w paginated \<Rightarrow> 'c yielder \<Rightarrow> 'w \<Rightarrow> 'c \<Rightarrow> (unit call \<times> event list \<times> 'w \<times> 'c) option" where
  "range_paginated n (Single it) yield w c =
     (case range_seq2 it yield c of
        (Panicked, tr, c') \<Rightarrow> Some (Panic, tr, w, c')
      | (_, tr, c') \<Rightarrow> Some (Return (), tr, w, c'))"
| "range_paginated n (Composite cl) yield w c =
     composite n (c_pageFn cl) (c_from cl) (c_to cl) (c_limit cl) (c_it cl) (c_total cl)
       (c_offset cl) yield w c"

section \<open>The page sources of the tests\<close>

text \<open>
  \<^verbatim>\<open>mockPageFunc\<close> of \<^verbatim>\<open>paginate_test.go\<close>. The slice expression
  \<^verbatim>\<open>pages[offset:end]\<close> is evaluated when the sequence is ranged over and panics
  unless \<open>0 \<le> offset \<le> end\<close>.
\<close>

definition mockPageFunc :: "bytes list \<Rightarrow> 'w PageFunc" where
  "mockPageFunc pages from to offset limit w =
     (if offset \<ge> int (length pages) then (Return (NilSeq, int (length pages), None), w)
      else
        (let end0 = wrap64 (offset + limit);
             end1 = (if end0 > int (length pages) then int (length pages) else end0)
         in (Return (Seq (if 0 \<le> offset \<and> offset \<le> end1
                          then map (\<lambda>b. Emit b None)
                                 (take (nat (end1 - offset)) (drop (nat offset) pages))
                          else [Crash]),
                     int (length pages), None), w)))"

text \<open>The page source of \<^verbatim>\<open>TestPaginate_ErrorOnFirstPage\<close>.\<close>

definition failingPageFunc :: "'w PageFunc" where
  "failingPageFunc from to offset limit w = (Return (NilSeq, 0, Some (Err ''mock error'')), w)"

text \<open>The page source of \<^verbatim>\<open>TestPaginate_ErrorOnNextPage\<close>.\<close>

definition errorOnNextPageFunc :: "bytes list \<Rightarrow> 'w PageFunc" where
  "errorOnNextPageFunc firstPage from to offset limit w =
     (if offset = 0 then (Return (Seq (map (\<lambda>b. Emit b None) firstPage), 4, None), w)
      else (Return (NilSeq, 4, Some (Err ''mock error on next page'')), w))"

text \<open>The test's page source made to fail at one offset.\<close>

definition flakyPageFunc :: "bytes list \<Rightarrow> int \<Rightarrow> 'w PageFunc" where
  "flakyPageFunc pages bad from to offset limit w =
     (if offset = bad
      then (Return (NilSeq, int (length pages), Some (Err ''mock error on next page'')), w)
      else mockPageFunc pages from to offset limit w)"

text \<open>A page source that succeeds on every call with an empty page and the total \<open>T\<close>.\<close>

definition emptyPageFunc :: "int \<Rightarrow> 'w PageFunc" where
  "emptyPageFunc T from to offset limit w = (Return (Seq [], T, None), w)"

text \<open>Consumers: one that appends every pair it is given and never stops, and one that
  stops when it is handed its \<open>k\<close>-th pair (\<^verbatim>\<open>break\<close> in the loop body).\<close>

definition collect :: "item list yielder" where
  "collect x acc = (True, acc @ [x])"

definition stop_after :: "nat \<Rightarrow> item list yielder" where
  "stop_after k x acc = (Suc (length acc) < k, acc @ [x])"

text \<open>The number of page-fetch calls in a trace.\<close>

fun is_fetch :: "event \<Rightarrow> bool" where
  "is_fetch (Fetch off lim e) = True"
| "is_fetch (FetchPanic off lim) = True"
| "is_fetch (Yielded x k) = False"

definition fetches :: "event list \<Rightarrow> nat" where
  "fetches tr = length (filter is_fetch tr)"

definition six_items :: "bytes list" where
  "six_items = [''item1'', ''item2'', ''item3'', ''item4'', ''item5'', ''item6'']"

section \<open>Shapes of traces\<close>

text \<open>A trace in which the consumer's refusal, if there is one, is the last event.\<close>

fun stop_is_last :: "event list \<Rightarrow> bool" where
  "stop_is_last [] = True"
| "stop_is_last (Yielded x False # rest) = (rest = [])"
| "stop_is_last (ev # rest) = stop_is_last rest"

fun all_accepted :: "event list \<Rightarrow> bool" where
  "all_accepted [] = True"
| "all_accepted (Yielded x k # rest) = (k \<and> all_accepted rest)"
| "all_accepted (ev # rest) = all_accepted rest"

text \<open>A trace in which a failed page fetch, if there is one, is followed by the one
  pair that carries its error, and by nothing else.\<close>

fun failure_ends :: "event list \<Rightarrow> bool" where
  "failure_ends [] = True"
| "failure_ends (Fetch off lim (Some err) # rest) =
     (\<exists>k. rest = [Yielded ([], Some (Wrap ''fetching next page failed'' err)) k])"
| "failure_ends (ev # rest) = failure_ends rest"

section \<open>The store: a Redis server seen through the go-redis client\<close>

text \<open>
  The repository talks to a Redis server through \<^verbatim>\<open>github.com/go-redis/redis/v8\<close>. Neither
  is part of the repository; this section states the part of their documented behaviour
  that the repository's code relies on.

  A key of the server holds a string or a sorted set. A sorted set is kept as Redis
  keeps it: one entry per member, ordered by score and then by the bytes of the member.
  A score is an IEEE double; every score this program writes is \<^verbatim>\<open>float64(n)\<close> for an
  \<^verbatim>\<open>int64\<close> \<open>n\<close>, which is an integer, so scores are values of type \<^typ>\<open>int\<close> and
  \<open>float64\<close> is the conversion: \<open>n\<close> rounded to 53 significant bits, ties to even.
\<close>

definition float64 :: "int \<Rightarrow> int" where
  "float64 n =
     (let a = \<bar>n\<bar>;
          e = length (filter (\<lambda>k. 2 ^ (53 + k) \<le> a) [0..<11]);
          q = a div 2 ^ e;
          r = a mod 2 ^ e;
          q' = (if 0 < e \<and> (2 ^ e < 2 * r \<or> (2 * r = 2 ^ e \<and> odd q)) then q + 1 else q)
      in sgn n * (q' * 2 ^ e))"

datatype rvalue = RString bytes | RZSet "(string \<times> int) list"

record server =
  keyspace :: "string \<rightharpoonup> rvalue"
  script_cache :: bool
  reachable :: bool

text \<open>The range bounds the code sends are the strings \<^verbatim>\<open>-inf\<close>, \<^verbatim>\<open>+inf\<close> and
  \<^verbatim>\<open>strconv.Itoa(n)\<close>; the server reads the last as a double.\<close>

datatype bound = NegInf | PosInf | Num int

datatype command =
    GET string
  | SET string bytes
  | EXISTS string
  | DEL string
  | ZADD string int string
  | ZREM string "string list"
  | ZCOUNT string bound bound
  | ZRANGEBYSCORE string bound bound "(int \<times> int) option"
  | MGET "string list"

datatype request =
    Command command
  | Transaction "command list"
  | SCRIPT_LOAD
  | EVALSHA string string bound bound int int

datatype reply =
    NilReply | Status string | Integer int | Bulk bytes | Array "reply list" | ErrorReply string

definition WRONGTYPE :: string where
  "WRONGTYPE = ''WRONGTYPE Operation against a key holding the wrong kind of value''"

fun bytes_less :: "string \<Rightarrow> string \<Rightarrow> bool" where
  "bytes_less [] [] = False"
| "bytes_less [] (y # ys) = True"
| "bytes_less (x # xs) [] = False"
| "bytes_less (x # xs) (y # ys) =
     ((of_char x :: nat) < of_char y \<or> (x = y \<and> bytes_less xs ys))"

fun zinsert :: "string \<times> int \<Rightarrow> (string \<times> int) list \<Rightarrow> (string \<times> int) list" where
  "zinsert (m, sc) [] = [(m, sc)]"
| "zinsert (m, sc) ((m', sc') # z) =
     (if sc < sc' \<or> (sc = sc' \<and> bytes_less m m') then (m, sc) # (m', sc') # z
      else (m', sc') # zinsert (m, sc) z)"

definition zadd :: "int \<Rightarrow> string \<Rightarrow> (string \<times> int) list \<Rightarrow> (string \<times> int) list" where
  "zadd sc m z = zinsert (m, sc) (filter (\<lambda>(m', sc'). m' \<noteq> m) z)"

definition zmember :: "string \<Rightarrow> (string \<times> int) list \<Rightarrow> bool" where
  "zmember m z = (m \<in> fst ` set z)"

definition in_range :: "bound \<Rightarrow> bound \<Rightarrow> int \<Rightarrow> bool" where
  "in_range lo hi sc =
     ((case lo of NegInf \<Rightarrow> True | PosInf \<Rightarrow> False | Num n \<Rightarrow> float64 n \<le> sc) \<and>
      (case hi of NegInf \<Rightarrow> False | PosInf \<Rightarrow> True | Num n \<Rightarrow> sc \<le> float64 n))"

text \<open>\<^verbatim>\<open>LIMIT offset count\<close>: a negative offset selects nothing, a negative count
  selects everything after the offset.\<close>

definition zlimit :: "(int \<times> int) option \<Rightarrow> 'a list \<Rightarrow> 'a list" where
  "zlimit lim xs =
     (case lim of
        None \<Rightarrow> xs
      | Some (off, cnt) \<Rightarrow>
          (if off < 0 then []
           else if cnt < 0 then drop (nat off) xs
           else take (nat cnt) (drop (nat off) xs)))"

text \<open>The sorted set under a key: a missing key is the empty set, a string is a type
  error.\<close>

definition zset_at :: "server \<Rightarrow> string \<Rightarrow> (string \<times> int) list option" where
  "zset_at srv k =
     (case keyspace srv k of
        None \<Rightarrow> Some []
      | Some (RZSet z) \<Rightarrow> Some z
      | Some (RString b) \<Rightarrow> None)"

fun exec1 :: "command \<Rightarrow> server \<Rightarrow> reply \<times> server" where
  "exec1 (GET k) srv =
     (case keyspace srv k of
        None \<Rightarrow> (NilReply, srv)
      | Some (RString b) \<Rightarrow> (Bulk b, srv)
      | Some (RZSet z) \<Rightarrow> (ErrorReply WRONGTYPE, srv))"
| "exec1 (SET k b) srv = (Status ''OK'', srv\<lparr>keyspace := (keyspace srv)(k \<mapsto> RString b)\<rparr>)"
| "exec1 (EXISTS k) srv = (Integer (if keyspace srv k = None then 0 else 1), srv)"
| "exec1 (DEL k) srv =
     (Integer (if keyspace srv k = None then 0 else 1),
      srv\<lparr>keyspace := (keyspace srv)(k := None)\<rparr>)"
| "exec1 (ZADD k sc m) srv =
     (case zset_at srv k of
        None \<Rightarrow> (ErrorReply WRONGTYPE, srv)
      | Some z \<Rightarrow>
          (Integer (if zmember m z then 0 else 1),
           srv\<lparr>keyspace := (keyspace srv)(k \<mapsto> RZSet (zadd sc m z))\<rparr>))"
| "exec1 (ZREM k ms) srv =
     (if ms = [] then (ErrorReply ''ERR wrong number of arguments for 'zrem' command'', srv)
      else
        (case zset_at srv k of
           None \<Rightarrow> (ErrorReply WRONGTYPE, srv)
         | Some z \<Rightarrow>
             (let z' = filter (\<lambda>(m, sc). m \<notin> set ms) z
              in (Integer (int (length z) - int (length z')),
                  srv\<lparr>keyspace :=
                        (keyspace srv)(k := (if z' = [] then None else Some (RZSet z')))\<rparr>))))"
| "exec1 (ZCOUNT k lo hi) srv =
     (case zset_at srv k of
        None \<Rightarrow> (ErrorReply WRONGTYPE, srv)
      | Some z \<Rightarrow> (Integer (int (length (filter (\<lambda>(m, sc). in_range lo hi sc) z))), srv))"
| "exec1 (ZRANGEBYSCORE k lo hi lim) srv =
     (case zset_at srv k of
        None \<Rightarrow> (ErrorReply WRONGTYPE, srv)
      | Some z \<Rightarrow>
          (Array (map (\<lambda>(m, sc). Bulk m) (zlimit lim (filter (\<lambda>(m, sc). in_range lo hi sc) z))),
           srv))"
| "exec1 (MGET ks) srv =
     (Array (map (\<lambda>k. case keyspace srv k of Some (RString b) \<Rightarrow> Bulk b | _ \<Rightarrow> NilReply) ks), srv)"

text \<open>\<^verbatim>\<open>MULTI\<close> ... \<^verbatim>\<open>EXEC\<close>: the queued commands run one after the other with
  nothing in between; a command that fails does not stop the ones after it.\<close>

fun exec_all :: "command list \<Rightarrow> server \<Rightarrow> reply list \<times> server" where
  "exec_all [] srv = ([], srv)"
| "exec_all (c # cs) srv =
     (case exec1 c srv of
        (rep, srv') \<Rightarrow> (case exec_all cs srv' of (reps, srv'') \<Rightarrow> (rep # reps, srv'')))"

subsection \<open>The server-evaluated range procedure\<close>

text \<open>
  \<^verbatim>\<open>rangeScript\<close>, the Lua text of \<^verbatim>\<open>tkv.go\<close>, line by line. \<^verbatim>\<open>redis.call\<close> raises
  when the command fails, which ends the script with that error. The script only reads,
  and the server evaluates it with nothing in between, so every call sees the same
  \<open>srv\<close>. Redis hands a missing value of \<^verbatim>\<open>MGET\<close> to Lua as \<^verbatim>\<open>false\<close> and turns it
  back into a nil reply, so the table of values is returned entry by entry. Offsets and
  counts are taken as Lua reads them below \<open>2 ^ 53\<close>, exactly; the limit of
  \<^verbatim>\<open>unpack\<close> on the number of keys is not modelled.
\<close>

fun bulk_strings :: "reply list \<Rightarrow> string list" where
  "bulk_strings [] = []"
| "bulk_strings (Bulk b # rs) = b # bulk_strings rs"
| "bulk_strings (r # rs) = bulk_strings rs"

definition rangeScript :: "string \<Rightarrow> bound \<Rightarrow> bound \<Rightarrow> int \<Rightarrow> int \<Rightarrow> server \<Rightarrow> reply" where
  "rangeScript key rangeMin rangeMax offset count srv =
     (case fst (exec1 (ZCOUNT key rangeMin rangeMax) srv) of
        Integer tot \<Rightarrow>
          (if tot = 0 then Array [Integer 0, Array []]
           else
             (case fst (exec1 (ZRANGEBYSCORE key rangeMin rangeMax (Some (offset, count))) srv) of
                Array keys \<Rightarrow>
                  (if length keys = 0 then Array [Integer 0, Array []]
                   else Array [Integer tot, fst (exec1 (MGET (bulk_strings keys)) srv)])
              | ErrorReply e \<Rightarrow> ErrorReply e
              | other \<Rightarrow> ErrorReply ''ERR unexpected reply''))
      | ErrorReply e \<Rightarrow> ErrorReply e
      | other \<Rightarrow> ErrorReply ''ERR unexpected reply'')"

definition rangeScriptSHA :: string where
  "rangeScriptSHA = ''sha1-of-rangeScript''"

fun execute :: "request \<Rightarrow> server \<Rightarrow> reply \<times> server" where
  "execute (Command c) srv = exec1 c srv"
| "execute (Transaction cs) srv = (case exec_all cs srv of (reps, srv') \<Rightarrow> (Array reps, srv'))"
| "execute SCRIPT_LOAD srv = (Bulk rangeScriptSHA, srv\<lparr>script_cache := True\<rparr>)"
| "execute (EVALSHA sha key rangeMin rangeMax offset count) srv =
     (if sha = rangeScriptSHA \<and> script_cache srv
      then (rangeScript key rangeMin rangeMax offset count srv, srv)
      else (ErrorReply ''NOSCRIPT No matching script. Please use EVAL.'', srv))"

subsection \<open>Round trips\<close>

text \<open>
  The world of a client: the server, what the other clients do to it before each of this
  client's round trips (\<open>schedule\<close>, one entry consumed per round trip, none left meaning
  nobody interferes), and the requests this client has sent. A request that does not reach
  the server changes nothing there and gives the client a transport error; an error reply
  of the server gives the client that error.
\<close>

record world =
  srv :: server
  schedule :: "(server \<Rightarrow> server) list"
  sent :: "request list"

definition incoming :: "world \<Rightarrow> server" where
  "incoming w = (case schedule w of [] \<Rightarrow> srv w | f # fs \<Rightarrow> f (srv w))"

definition round_trip :: "request \<Rightarrow> world \<Rightarrow> (error + reply) \<times> world" where
  "round_trip req w =
     (let s = incoming w; w' = w\<lparr>schedule := tl (schedule w), sent := sent w @ [req]\<rparr>
      in if \<not> reachable s then (Inl (Err ''dial tcp: connection refused''), w'\<lparr>srv := s\<rparr>)
         else
           (case execute req s of
              (ErrorReply msg, s') \<Rightarrow> (Inl (Err msg), w'\<lparr>srv := s'\<rparr>)
            | (rep, s') \<Rightarrow> (Inr rep, w'\<lparr>srv := s'\<rparr>)))"

text \<open>\<^verbatim>\<open>TxPipelined\<close>: the queued commands go out as one transaction; every command gets
  its reply (the transport error, when the transaction did not reach the server), and the
  error returned is the first error among them.\<close>

fun first_error :: "reply list \<Rightarrow> error option" where
  "first_error [] = None"
| "first_error (ErrorReply msg # rs) = Some (Err msg)"
| "first_error (r # rs) = first_error rs"

definition TxPipelined :: "command list \<Rightarrow> world \<Rightarrow> (reply list \<times> error option) \<times> world" where
  "TxPipelined cmds w =
     (case round_trip (Transaction cmds) w of
        (Inl e, w') \<Rightarrow> ((map (\<lambda>c. ErrorReply ''dial tcp: connection refused'') cmds, Some e), w')
      | (Inr (Array reps), w') \<Rightarrow> ((reps, first_error reps), w')
      | (Inr other, w') \<Rightarrow> (([], None), w'))"

text \<open>\<^verbatim>\<open>IntCmd.Val()\<close> of the \<open>i\<close>-th queued command: its integer, 0 when it failed.\<close>

definition int_val :: "reply list \<Rightarrow> nat \<Rightarrow> int" where
  "int_val reps i = (case drop i reps of Integer n # rest \<Rightarrow> n | _ \<Rightarrow> 0)"

section \<open>The store wrapper (\<^verbatim>\<open>tkv.go\<close>)\<close>

definition ErrUnexpectedScriptResult :: error where
  "ErrUnexpectedScriptResult = Err ''unexpected result from lua script''"

definition DelimUnit :: string where
  "DelimUnit = [char_of (31::nat)]"

definition DelimPipe :: string where
  "DelimPipe = ''|''"

definition lastModifiedIdxSuffix :: string where
  "lastModifiedIdxSuffix = ''lmIdx''"

record BulkSetRecord =
  LastModified :: time
  ID :: "string list"
  Data :: bytes

text \<open>The \<^verbatim>\<open>client\<close> field is the world the calls act on; the mutex guards
  \<^verbatim>\<open>scriptSHA\<close> between goroutines and has no part in a single call.\<close>

record RedisTKV =
  namespace :: string
  idDelimiter :: string
  scriptSHA :: string

definition NewRedisTKV :: "string \<Rightarrow> string \<Rightarrow> RedisTKV" where
  "NewRedisTKV idDelim ns = \<lparr>namespace = ns, idDelimiter = idDelim, scriptSHA = []\<rparr>"

text \<open>\<^verbatim>\<open>strings.Join\<close>.\<close>

fun Join :: "string list \<Rightarrow> string \<Rightarrow> string" where
  "Join [] sep = []"
| "Join [x] sep = x"
| "Join (x # y # ys) sep = x @ sep @ Join (y # ys) sep"

definition namespacedKey :: "RedisTKV \<Rightarrow> string list \<Rightarrow> string" where
  "namespacedKey r key = namespace r @ idDelimiter r @ Join key (idDelimiter r)"

definition s2b :: "string \<Rightarrow> bytes" where
  "s2b s = s"

text \<open>\<^verbatim>\<open>Get\<close>: the absent value is \<open>None\<close> (the nil slice with a nil error).\<close>

definition Get :: "RedisTKV \<Rightarrow> string list \<Rightarrow> world \<Rightarrow> (bytes option \<times> error option) \<times> world" where
  "Get r idSegs w =
     (case round_trip (Command (GET (namespacedKey r idSegs))) w of
        (Inr (Bulk data), w') \<Rightarrow> ((Some data, None), w')
      | (Inr other, w') \<Rightarrow> ((None, None), w')
      | (Inl err, w') \<Rightarrow> ((None, Some (Wrap ''failed to get entity'' err)), w'))"

text \<open>The two commands \<^verbatim>\<open>BulkSet\<close> and \<^verbatim>\<open>Set\<close> queue for one record.\<close>

definition write_cmds :: "RedisTKV \<Rightarrow> time \<Rightarrow> string list \<Rightarrow> bytes \<Rightarrow> command list" where
  "write_cmds r timestamp idSegs data =
     (let key = namespacedKey r idSegs
      in [SET key data,
          ZADD (namespacedKey r [lastModifiedIdxSuffix]) (float64 timestamp) key])"

definition BulkSet :: "RedisTKV \<Rightarrow> BulkSetRecord list \<Rightarrow> world \<Rightarrow> error option \<times> world" where
  "BulkSet r records w =
     (if length records = 0 then (None, w)
      else
        (case TxPipelined
                (concat (map (\<lambda>rec. write_cmds r (LastModified rec) (ID rec) (Data rec)) records)) w of
           ((reps, Some err), w') \<Rightarrow> (Some (Wrap ''failed to bulk insert records'' err), w')
         | ((reps, None), w') \<Rightarrow> (None, w')))"

definition Set ::
  "RedisTKV \<Rightarrow> bytes \<Rightarrow> time \<Rightarrow> string list \<Rightarrow> world \<Rightarrow> (bool \<times> error option) \<times> world" where
  "Set r data lastModified idSegs w =
     (case TxPipelined (write_cmds r lastModified idSegs data) w of
        ((reps, Some err), w') \<Rightarrow> ((False, Some (Wrap ''failed to set entity'' err)), w')
      | ((reps, None), w') \<Rightarrow> ((int_val reps 1 = 0, None), w'))"

definition Exists :: "RedisTKV \<Rightarrow> string list \<Rightarrow> world \<Rightarrow> (bool \<times> error option) \<times> world" where
  "Exists r idSegs w =
     (case round_trip (Command (EXISTS (namespacedKey r idSegs))) w of
        (Inr (Integer n), w') \<Rightarrow> ((n > 0, None), w')
      | (Inr other, w') \<Rightarrow> ((False, None), w')
      | (Inl err, w') \<Rightarrow> ((False, Some (Wrap ''failed to check if entity exists'' err)), w'))"

text \<open>\<^verbatim>\<open>Delete\<close>: the members handed to \<^verbatim>\<open>ZRem\<close> are \<^verbatim>\<open>id\<close>, the slice of segments,
  which go-redis spreads into one member per segment.\<close>

definition Delete :: "RedisTKV \<Rightarrow> string list \<Rightarrow> world \<Rightarrow> error option \<times> world" where
  "Delete r idSegs w =
     (case TxPipelined
             [DEL (namespacedKey r idSegs), ZREM (namespacedKey r [lastModifiedIdxSuffix]) idSegs] w of
        ((reps, Some err), w') \<Rightarrow> (Some (Wrap ''failed to delete entity'' err), w')
      | ((reps, None), w') \<Rightarrow> (None, w'))"

definition range_bounds :: "time option \<Rightarrow> time option \<Rightarrow> bound \<times> bound" where
  "range_bounds from to =
     ((case from of Some t \<Rightarrow> Num t | None \<Rightarrow> NegInf),
      (case to of Some t \<Rightarrow> Num t | None \<Rightarrow> PosInf))"

text \<open>The loop both page functions return: \<^verbatim>\<open>rawValue.(string)\<close> panics on a value
  that is not a string.\<close>

definition values_seq :: "reply list \<Rightarrow> seq2" where
  "values_seq rawValues =
     Seq (map (\<lambda>rawValue. case rawValue of Bulk s \<Rightarrow> Emit (s2b s) None | _ \<Rightarrow> Crash) rawValues)"

text \<open>go-redis sends \<^verbatim>\<open>LIMIT\<close> only when the offset or the count is not zero.\<close>

definition FetchPage :: "RedisTKV \<Rightarrow> world PageFunc" where
  "FetchPage r from to offset limit w =
     (case range_bounds from to of
        (rangeMin, rangeMax) \<Rightarrow>
          (let key = namespacedKey r [lastModifiedIdxSuffix] in
           case round_trip (Command (ZCOUNT key rangeMin rangeMax)) w of
             (Inl err, w1) \<Rightarrow> (Return (NilSeq, 0, Some (Wrap ''failed to count'' err)), w1)
           | (Inr countReply, w1) \<Rightarrow>
               (let tot = (case countReply of Integer n \<Rightarrow> n | _ \<Rightarrow> 0) in
                case round_trip
                       (Command (ZRANGEBYSCORE key rangeMin rangeMax
                          (if offset \<noteq> 0 \<or> limit \<noteq> 0 then Some (offset, limit) else None))) w1 of
                  (Inl err, w2) \<Rightarrow>
                    (Return (NilSeq, 0, Some (Wrap ''failed to execute zrangebyscore'' err)), w2)
                | (Inr rangeReply, w2) \<Rightarrow>
                    (let result = (case rangeReply of Array ms \<Rightarrow> bulk_strings ms | _ \<Rightarrow> []) in
                     if length result = 0 then (Return (Seq [], tot, None), w2)
                     else
                       (case round_trip (Command (MGET result)) w2 of
                          (Inl err, w3) \<Rightarrow>
                            (Return (NilSeq, 0, Some (Wrap ''failed to execute mget'' err)), w3)
                        | (Inr mGetReply, w3) \<Rightarrow>
                            (let mGetResult = (case mGetReply of Array vs \<Rightarrow> vs | _ \<Rightarrow> [])
                             in (Return (values_seq mGetResult, tot, None), w3)))))))"

definition getScriptSHA :: "RedisTKV \<times> world \<Rightarrow> (string \<times> error option) \<times> (RedisTKV \<times> world)" where
  "getScriptSHA rw =
     (case rw of
        (r, w) \<Rightarrow>
          (if scriptSHA r \<noteq> [] then ((scriptSHA r, None), (r, w))
           else
             (case round_trip SCRIPT_LOAD w of
                (Inl err, w') \<Rightarrow>
                  (([], Some (Wrap ''failed to load lua range script'' err)),
                   (r\<lparr>scriptSHA := []\<rparr>, w'))
              | (Inr (Bulk sha), w') \<Rightarrow> ((sha, None), (r\<lparr>scriptSHA := sha\<rparr>, w'))
              | (Inr other, w') \<Rightarrow> (([], None), (r\<lparr>scriptSHA := []\<rparr>, w')))))"

text \<open>\<^verbatim>\<open>FetchPageConsistent\<close> caches the script's handle in its receiver, so the receiver
  is part of the state.\<close>

definition FetchPageConsistent :: "(RedisTKV \<times> world) PageFunc" where
  "FetchPageConsistent from to offset limit rw =
     (case range_bounds from to of
        (rangeMin, rangeMax) \<Rightarrow>
          (case getScriptSHA rw of
             ((sha, Some err), rw1) \<Rightarrow>
               (Return (NilSeq, 0, Some (Wrap ''failed to load script'' err)), rw1)
           | ((sha, None), (r1, w1)) \<Rightarrow>
               (case round_trip
                       (EVALSHA sha (namespacedKey r1 [lastModifiedIdxSuffix])
                          rangeMin rangeMax offset limit) w1 of
                  (Inl err, w2) \<Rightarrow>
                    (Return (NilSeq, 0, Some (Wrap ''failed to execute search.lua script'' err)),
                     (r1, w2))
                | (Inr (Array resultSlice), w2) \<Rightarrow>
                    (if length resultSlice \<noteq> 2
                     then (Return (NilSeq, 0, Some ErrUnexpectedScriptResult), (r1, w2))
                     else
                       (case resultSlice of
                          [Integer tot, Array rawValues] \<Rightarrow>
                            (Return (values_seq rawValues, tot, None), (r1, w2))
                        | _ \<Rightarrow> (Panic, (r1, w2))))
                | (Inr other, w2) \<Rightarrow>
                    (Return (NilSeq, 0, Some ErrUnexpectedScriptResult), (r1, w2)))))"

text \<open>The entries the Ordering Index holds for a member, and the commands of a batch.\<close>

definition index_entries :: "RedisTKV \<Rightarrow> server \<Rightarrow> string \<Rightarrow> (string \<times> int) list" where
  "index_entries r s k =
     (case zset_at s (namespacedKey r [lastModifiedIdxSuffix]) of
        Some z \<Rightarrow> filter (\<lambda>(m, sc). m = k) z
      | None \<Rightarrow> [])"

section \<open>Example states\<close>

text \<open>A reachable server that stores nothing and has no other client, and the store
  of \<^verbatim>\<open>example_test.go\<close> with the printable delimiter.\<close>

definition empty_world :: world where
  "empty_world =
     \<lparr>srv = \<lparr>keyspace = Map.empty, script_cache = False, reachable = True\<rparr>,
      schedule = [], sent = []\<rparr>"

definition example_store :: RedisTKV where
  "example_store = NewRedisTKV DelimPipe ''example''"

text \<open>The world after \<^verbatim>\<open>Set\<close> of the record \<open>a\<close>, and after \<^verbatim>\<open>Delete\<close> of it.\<close>

definition after_set :: world where
  "after_set = snd (Set example_store ''v'' 100 [''a''] empty_world)"

definition after_delete :: world where
  "after_delete = snd (Delete example_store [''a''] after_set)"

text \<open>The world after \<^verbatim>\<open>Set\<close> of the record \<open>a\<close> in which another client removes the
  record, its value and its index entry, between this client's second and third round
  trip.\<close>

definition deleted_meanwhile :: world where
  "deleted_meanwhile =
     after_set\<lparr>schedule :=
       [\<lambda>s. s, \<lambda>s. s,
        \<lambda>s. snd (exec_all [DEL ''example|a'', ZREM ''example|lmIdx'' [''example|a'']] s)]\<rparr>"

section \<open>Properties of the page combinator\<close>

lemma drain_no_fetch: "drain steps yield c = (f, tr, c') \<Longrightarrow> filter is_fetch tr = []"
  by (induction steps yield c arbitrary: f tr c' rule: drain.induct)
     (auto split: prod.splits bool.splits if_splits)

lemma range_seq2_no_fetch: "range_seq2 it yield c = (f, tr, c') \<Longrightarrow> filter is_fetch tr = []"
  by (cases it) (auto dest: drain_no_fetch)

lemma composite_fuel_mono:
  "composite n pageFn from to limit it tot offset yield w c = Some r \<Longrightarrow> n \<le> m \<Longrightarrow>
   composite m pageFn from to limit it tot offset yield w c = Some r"
proof (induction n arbitrary: m it tot offset w c r)
  case 0
  then show ?case by simp
next
  case (Suc n)
  then obtain m' where m: "m = Suc m'" "n \<le> m'" by (cases m) auto
  show ?case
    using Suc.prems(1) Suc.IH[OF _ m(2)] unfolding m(1)
    by (auto simp: Let_def split: prod.splits flow.splits call.splits option.splits if_splits)
qed

lemma stop_is_last_decompose:
  "stop_is_last (pre @ Yielded x False # post) \<Longrightarrow> post = []"
  by (induction pre rule: stop_is_last.induct) auto

lemma stop_is_last_append:
  "all_accepted tr \<Longrightarrow> stop_is_last (tr @ tr') = stop_is_last tr'"
  by (induction tr rule: all_accepted.induct) auto

lemma all_accepted_stop_is_last: "all_accepted tr \<Longrightarrow> stop_is_last tr"
  using stop_is_last_append[of tr "[]"] by simp

lemma stop_is_last_single: "stop_is_last [ev]"
  by (cases "[ev]" rule: stop_is_last.cases) auto

lemma drain_flow:
  "drain steps yield c = (f, tr, c') \<Longrightarrow>
   stop_is_last tr \<and> (f \<noteq> Stopped \<longrightarrow> all_accepted tr)"
  by (induction steps yield c arbitrary: f tr c' rule: drain.induct)
     (auto split: prod.splits bool.splits if_splits)

lemma range_seq2_flow:
  "range_seq2 it yield c = (f, tr, c') \<Longrightarrow>
   stop_is_last tr \<and> (f \<noteq> Stopped \<longrightarrow> all_accepted tr)"
  by (cases it) (auto dest: drain_flow)

lemma composite_stop_is_last:
  "composite n pageFn from to limit it tot offset yield w c = Some (r, tr, w', c') \<Longrightarrow>
   stop_is_last tr"
proof (induction n arbitrary: it tot offset w c r tr w' c')
  case 0
  then show ?case by simp
next
  case (Suc n)
  obtain f tr0 c0 where rg: "range_seq2 it yield c = (f, tr0, c0)"
    by (cases "range_seq2 it yield c") auto
  note fl = range_seq2_flow[OF rg]
  show ?case
  proof (cases f)
    case Exhausted
    then have acc: "all_accepted tr0" using fl by simp
    show ?thesis
      using Suc.prems Suc.IH rg Exhausted acc
      by (auto simp: Let_def stop_is_last_append all_accepted_stop_is_last stop_is_last_single
               split: prod.splits call.splits option.splits if_splits)
  next
    case Stopped
    then show ?thesis using Suc.prems rg fl by auto
  next
    case Panicked
    then show ?thesis using Suc.prems rg fl by auto
  qed
qed

lemma failure_ends_decompose:
  "failure_ends (pre @ Fetch off lim (Some err) # post) \<Longrightarrow>
   \<exists>k. post = [Yielded ([], Some (Wrap ''fetching next page failed'' err)) k]"
  by (induction pre rule: failure_ends.induct) (auto simp: append_eq_Cons_conv)

lemma failure_ends_append:
  "filter is_fetch tr = [] \<Longrightarrow> failure_ends (tr @ tr') = failure_ends tr'"
  by (induction tr rule: failure_ends.induct) auto

lemma failure_ends_no_fetch: "filter is_fetch tr = [] \<Longrightarrow> failure_ends tr"
  using failure_ends_append[of tr "[]"] by simp

lemma composite_failure_ends:
  "composite n pageFn from to limit it tot offset yield w c = Some (r, tr, w', c') \<Longrightarrow>
   failure_ends tr"
proof (induction n arbitrary: it tot offset w c r tr w' c')
  case 0
  then show ?case by simp
next
  case (Suc n)
  obtain f tr0 c0 where rg: "range_seq2 it yield c = (f, tr0, c0)"
    by (cases "range_seq2 it yield c") auto
  note nf = range_seq2_no_fetch[OF rg]
  show ?case
    using Suc.prems Suc.IH rg nf
    by (auto simp: Let_def failure_ends_append failure_ends_no_fetch
             split: prod.splits call.splits option.splits if_splits flow.splits)
qed

lemma composite_failed_fetch_returns:
  "composite n pageFn from to limit it tot offset yield w c = Some (r, tr, w', c') \<Longrightarrow>
   Fetch off lim (Some err) \<in> set tr \<Longrightarrow> r = Return ()"
proof (induction n arbitrary: it tot offset w c r tr w' c')
  case 0
  then show ?case by simp
next
  case (Suc n)
  obtain f tr0 c0 where rg: "range_seq2 it yield c = (f, tr0, c0)"
    by (cases "range_seq2 it yield c") auto
  have nf: "Fetch off lim (Some err) \<notin> set tr0"
    using range_seq2_no_fetch[OF rg] by (auto simp: filter_empty_conv)
  show ?case
    using Suc.prems Suc.IH rg nf
    by (auto simp: Let_def 
             split: prod.splits call.splits option.splits if_splits flow.splits)
qed

lemma range_single_no_fetch:
  "\<exists>r tr c'. range_paginated n (Single it) yield w c = Some (r, tr, w, c') \<and> fetches tr = 0"
proof -
  obtain f tr c' where rg: "range_seq2 it yield c = (f, tr, c')"
    by (cases "range_seq2 it yield c") auto
  from range_seq2_no_fetch[OF rg] have "fetches tr = 0" by (simp add: fetches_def)
  with rg show ?thesis by (cases f) auto
qed

lemma six_items_two_per_page:
  "range_paginated 3
     (Composite \<lparr>c_pageFn = mockPageFunc six_items, c_from = None, c_to = None,
        c_offset = 0, c_limit = 2, c_it = Seq [Emit ''item1'' None, Emit ''item2'' None],
        c_total = 6\<rparr>) collect () [] =
   Some (Return (),
     [Yielded (''item1'', None) True, Yielded (''item2'', None) True, Fetch 2 2 None,
      Yielded (''item3'', None) True, Yielded (''item4'', None) True, Fetch 4 2 None,
      Yielded (''item5'', None) True, Yielded (''item6'', None) True],
     (), map (\<lambda>b. (b, None)) six_items)"
  by code_simp

text \<open>
  C6. When the first page-fetch call succeeds and reports a total that is at most the limit,
  \<^verbatim>\<open>Paginate\<close> has made exactly that one call and returns the page's own sequence,
  and ranging over it makes no further call. Over the test's page source of six items with
  page size 2, the sequence yields the six items in order, and the first call together
  with the two made while ranging are exactly three page-fetch calls.
\<close>

theorem Paginate_single_page_and_six_items:
  "(pageFn from to offset limit w = (Return (it, tot, None), w') \<and> tot \<le> limit \<longrightarrow>
      Paginate pageFn from to offset limit w =
        (Return (Single it, None), [Fetch offset limit None], w') \<and>
      (\<forall>n (yield :: 'c yielder) c. \<exists>r tr c'.
          range_paginated n (Single it) yield w' c = Some (r, tr, w', c') \<and> fetches tr = 0)) \<and>
   Paginate (mockPageFunc six_items) None None 0 2 () =
     (Return (Composite \<lparr>c_pageFn = mockPageFunc six_items, c_from = None, c_to = None,
                c_offset = 0, c_limit = 2,
                c_it = Seq [Emit ''item1'' None, Emit ''item2'' None], c_total = 6\<rparr>, None),
      [Fetch 0 2 None], ()) \<and>
   (\<forall>n\<ge>3. range_paginated n
       (Composite \<lparr>c_pageFn = mockPageFunc six_items, c_from = None, c_to = None,
          c_offset = 0, c_limit = 2, c_it = Seq [Emit ''item1'' None, Emit ''item2'' None],
          c_total = 6\<rparr>) collect () [] =
     Some (Return (),
       [Yielded (''item1'', None) True, Yielded (''item2'', None) True, Fetch 2 2 None,
        Yielded (''item3'', None) True, Yielded (''item4'', None) True, Fetch 4 2 None,
        Yielded (''item5'', None) True, Yielded (''item6'', None) True],
       (), map (\<lambda>b. (b, None)) six_items)) \<and>
   fetches ([Fetch 0 2 None] @
       [Yielded (''item1'', None) True, Yielded (''item2'', None) True, Fetch 2 2 None,
        Yielded (''item3'', None) True, Yielded (''item4'', None) True, Fetch 4 2 None,
        Yielded (''item5'', None) True, Yielded (''item6'', None) True]) = 3"
proof (intro conjI impI allI)
  assume h: "pageFn from to offset limit w = (Return (it, tot, None), w') \<and> tot \<le> limit"
  then show "Paginate pageFn from to offset limit w =
        (Return (Single it, None), [Fetch offset limit None], w')"
    by (simp add: Paginate_def)
next
  fix n :: nat and yield :: "'c yielder" and c :: 'c
  show "\<exists>r tr c'. range_paginated n (Single it) yield w' c = Some (r, tr, w', c') \<and> fetches tr = 0"
    by (rule range_single_no_fetch)
next
  show "Paginate (mockPageFunc six_items) None None 0 2 () =
     (Return (Composite \<lparr>c_pageFn = mockPageFunc six_items, c_from = None, c_to = None,
                c_offset = 0, c_limit = 2,
                c_it = Seq [Emit ''item1'' None, Emit ''item2'' None], c_total = 6\<rparr>, None),
      [Fetch 0 2 None], ())"
    by (simp add: Paginate_def mockPageFunc_def six_items_def wrap64_def)
next
  fix n :: nat
  assume "3 \<le> n"
  with composite_fuel_mono[OF six_items_two_per_page[simplified range_paginated.simps], of n]
  show "range_paginated n
       (Composite \<lparr>c_pageFn = mockPageFunc six_items, c_from = None, c_to = None,
          c_offset = 0, c_limit = 2, c_it = Seq [Emit ''item1'' None, Emit ''item2'' None],
          c_total = 6\<rparr>) collect () [] =
     Some (Return (),
       [Yielded (''item1'', None) True, Yielded (''item2'', None) True, Fetch 2 2 None,
        Yielded (''item3'', None) True, Yielded (''item4'', None) True, Fetch 4 2 None,
        Yielded (''item5'', None) True, Yielded (''item6'', None) True],
       (), map (\<lambda>b. (b, None)) six_items)"
    by simp
next
  show "fetches ([Fetch 0 2 None] @
       [Yielded (''item1'', None) True, Yielded (''item2'', None) True, Fetch 2 2 None,
        Yielded (''item3'', None) True, Yielded (''item4'', None) True, Fetch 4 2 None,
        Yielded (''item5'', None) True, Yielded (''item6'', None) True]) = 3"
    by (simp add: fetches_def)
qed

theorem Paginate_single_page_and_six_items_witness:
  "mockPageFunc six_items None None 0 6 () =
     (Return (Seq (map (\<lambda>b. Emit b None) six_items), 6, None), ()) \<and> (6::int) \<le> 6 \<and>
   Paginate (mockPageFunc six_items) None None 0 6 () =
     (Return (Single (Seq (map (\<lambda>b. Emit b None) six_items)), None), [Fetch 0 6 None], ())"
proof -
  have h: "mockPageFunc six_items None None 0 6 () =
     (Return (Seq (map (\<lambda>b. Emit b None) six_items), 6, None), ()) \<and> (6::int) \<le> 6"
    by (simp add: mockPageFunc_def six_items_def wrap64_def)
  from Paginate_single_page_and_six_items
    [of "mockPageFunc six_items" None None 0 6 "()" "Seq (map (\<lambda>b. Emit b None) six_items)" 6 "()"]
  show ?thesis using h by blast
qed

lemma stop_is_last_prefix_accepted:
  "stop_is_last (pre @ ev # post) \<Longrightarrow> Yielded x k \<in> set pre \<Longrightarrow> k"
  by (induction pre rule: stop_is_last.induct) auto

lemma all_accepted_no_stop: "all_accepted tr \<Longrightarrow> Yielded x False \<notin> set tr"
  by (induction tr rule: all_accepted.induct) auto

lemma composite_stop_returns:
  "composite n pageFn from to limit it tot offset yield w c = Some (r, tr, w', c') \<Longrightarrow>
   Yielded x False \<in> set tr \<Longrightarrow> r = Return ()"
proof (induction n arbitrary: it tot offset w c r tr w' c')
  case 0
  then show ?case by simp
next
  case (Suc n)
  obtain f tr0 c0 where rg: "range_seq2 it yield c = (f, tr0, c0)"
    by (cases "range_seq2 it yield c") auto
  have nf: "f \<noteq> Stopped \<Longrightarrow> Yielded x False \<notin> set tr0"
    using range_seq2_flow[OF rg] all_accepted_no_stop by blast
  show ?case
  proof (cases f)
    case Exhausted
    with nf have "Yielded x False \<notin> set tr0" by simp
    then show ?thesis
    using Suc.prems Suc.IH rg Exhausted
    by (auto simp: Let_def 
             split: prod.splits call.splits option.splits if_splits)
  next
    case Stopped
    then show ?thesis using Suc.prems rg by auto
  next
    case Panicked
    then show ?thesis using Suc.prems rg nf by auto
  qed
qed

lemma composite_after_advance:
  "advance k pageFn from to limit it tot offset yield w c = Some (pre, it', tot', offset', w', c') \<Longrightarrow>
   composite n pageFn from to limit it' tot' offset' yield w' c' = Some (r, tr, w'', c'') \<Longrightarrow>
   composite (k + n) pageFn from to limit it tot offset yield w c = Some (r, pre @ tr, w'', c'')"
proof (induction k arbitrary: it tot offset w c pre)
  case 0
  then show ?case by simp
next
  case (Suc k)
  obtain f tr0 c0 where rg: "range_seq2 it yield c = (f, tr0, c0)"
    by (cases "range_seq2 it yield c") auto
  from Suc.prems(1) rg have ex: "f = Exhausted"
    by (cases f) auto
  let ?o = "wrap64 (offset + limit)"
  from Suc.prems(1) rg ex have lt: "\<not> tot \<le> ?o"
    by (auto simp: Let_def split: if_splits)
  from Suc.prems(1) rg ex lt obtain it1 tot1 w1 pre1 where
    pf: "pageFn from to ?o limit w = (Return (it1, tot1, None), w1)"
    and adv: "advance k pageFn from to limit it1 tot1 ?o yield w1 c0 =
        Some (pre1, it', tot', offset', w', c')"
    and pre: "pre = tr0 @ Fetch ?o limit None # pre1"
    by (auto simp: Let_def split: prod.splits call.splits option.splits if_splits)
  from Suc.IH[OF adv Suc.prems(2)]
  have "composite (k + n) pageFn from to limit it1 tot1 ?o yield w1 c0 =
      Some (r, pre1 @ tr, w'', c'')" .
  then show ?case
    using rg ex lt pf pre by (simp add: Let_def)
qed

lemma composite_at_failed_fetch:
  assumes "range_seq2 it yield c = (Exhausted, tr0, c0)"
    and "\<not> tot \<le> wrap64 (offset + limit)"
    and "pageFn from to (wrap64 (offset + limit)) limit w = (Return (it', tot', Some err), w')"
  shows "composite (Suc n) pageFn from to limit it tot offset yield w c =
     Some (Return (),
       tr0 @ [Fetch (wrap64 (offset + limit)) limit (Some err),
              Yielded ([], Some (Wrap ''fetching next page failed'' err))
                (fst (yield ([], Some (Wrap ''fetching next page failed'' err)) c0))],
       w', snd (yield ([], Some (Wrap ''fetching next page failed'' err)) c0))"
  using assms by (simp add: Let_def split: prod.splits)

lemma later_failure_terminates:
  assumes adv: "advance k pageFn from to limit it tot offset yield w c =
      Some (pre, it1, tot1, offset1, w1, c1)"
    and rg: "range_seq2 it1 yield c1 = (Exhausted, tr0, c0)"
    and lt: "\<not> tot1 \<le> wrap64 (offset1 + limit)"
    and pf: "pageFn from to (wrap64 (offset1 + limit)) limit w1 =
      (Return (it2, tot2, Some err), w2)"
    and m: "k < m"
  shows "composite m pageFn from to limit it tot offset yield w c =
     Some (Return (),
       pre @ tr0 @ [Fetch (wrap64 (offset1 + limit)) limit (Some err),
              Yielded ([], Some (Wrap ''fetching next page failed'' err))
                (fst (yield ([], Some (Wrap ''fetching next page failed'' err)) c0))],
       w2, snd (yield ([], Some (Wrap ''fetching next page failed'' err)) c0))"
proof -
  from m obtain n where mm: "m = k + Suc n" by (metis less_iff_Suc_add add_Suc_right)
  have step: "composite (Suc n) pageFn from to limit it1 tot1 offset1 yield w1 c1 =
     Some (Return (),
       tr0 @ [Fetch (wrap64 (offset1 + limit)) limit (Some err),
              Yielded ([], Some (Wrap ''fetching next page failed'' err))
                (fst (yield ([], Some (Wrap ''fetching next page failed'' err)) c0))],
       w2, snd (yield ([], Some (Wrap ''fetching next page failed'' err)) c0))"
    using rg lt pf by (rule composite_at_failed_fetch)
  show ?thesis
    unfolding mm using composite_after_advance[OF adv step] by simp
qed

text \<open>
  C7. If the first page-fetch call returns an error, \<^verbatim>\<open>Paginate\<close> returns that error,
  wrapped, with the nil sequence, which yields nothing. If a later page-fetch call returns
  an error, the run returns normally, every pair yielded before it had been accepted by the
  consumer, and what follows the failed call is exactly one yielded pair, carrying the
  wrapped error, after which the trace ends. And the run does end there: when the loop has
  fetched \<open>k\<close> more pages, drained the page at hand and the next page-fetch call returns
  an error, then with any fuel above \<open>k\<close> the sequence returns, its trace being
  everything that had happened up to the failure, unchanged, then the failed call and the
  one pair with the wrapped error.
\<close>

theorem Paginate_error_handling:
  "(pageFn from to offset limit w = (Return (it, tot, Some err), w') \<longrightarrow>
      Paginate pageFn from to offset limit w =
        (Return (Single NilSeq, Some (Wrap ''fetching first page failed'' err)),
         [Fetch offset limit (Some err)], w') \<and>
      (\<forall>n (yield :: 'c yielder) c.
          range_paginated n (Single NilSeq) yield w' c = Some (Panic, [], w', c))) \<and>
   (range_paginated m (Composite cl) yield2 w2 c2 = Some (r, tr, w3, c3) \<and>
    tr = pre @ Fetch off lim (Some err2) # post \<longrightarrow>
      r = Return () \<and>
      (\<forall>x k. Yielded x k \<in> set pre \<longrightarrow> k) \<and>
      (\<exists>k. post = [Yielded ([], Some (Wrap ''fetching next page failed'' err2)) k])) \<and>
   (advance k3 (c_pageFn cl3) (c_from cl3) (c_to cl3) (c_limit cl3) (c_it cl3) (c_total cl3)
        (c_offset cl3) yield3 w4 c4 = Some (pre3, it1, tot1, offset1, w5, c5) \<and>
    range_seq2 it1 yield3 c5 = (Exhausted, tr0, c6) \<and>
    \<not> tot1 \<le> wrap64 (offset1 + c_limit cl3) \<and>
    c_pageFn cl3 (c_from cl3) (c_to cl3) (wrap64 (offset1 + c_limit cl3)) (c_limit cl3) w5 =
      (Return (it2, tot2, Some err3), w6) \<longrightarrow>
      (\<forall>m3>k3. range_paginated m3 (Composite cl3) yield3 w4 c4 =
          Some (Return (),
            pre3 @ tr0 @
              [Fetch (wrap64 (offset1 + c_limit cl3)) (c_limit cl3) (Some err3),
               Yielded ([], Some (Wrap ''fetching next page failed'' err3))
                 (fst (yield3 ([], Some (Wrap ''fetching next page failed'' err3)) c6))],
            w6, snd (yield3 ([], Some (Wrap ''fetching next page failed'' err3)) c6))))"
proof (intro conjI impI allI)
  assume "pageFn from to offset limit w = (Return (it, tot, Some err), w')"
  then show "Paginate pageFn from to offset limit w =
        (Return (Single NilSeq, Some (Wrap ''fetching first page failed'' err)),
         [Fetch offset limit (Some err)], w')"
    by (simp add: Paginate_def)
next
  fix n :: nat and yield :: "'c yielder" and c :: 'c
  show "range_paginated n (Single NilSeq) yield w' c = Some (Panic, [], w', c)"
    by simp
next
  assume h: "range_paginated m (Composite cl) yield2 w2 c2 = Some (r, tr, w3, c3) \<and>
    tr = pre @ Fetch off lim (Some err2) # post"
  then have run: "composite m (c_pageFn cl) (c_from cl) (c_to cl) (c_limit cl) (c_it cl)
      (c_total cl) (c_offset cl) yield2 w2 c2 = Some (r, tr, w3, c3)"
    and tr: "tr = pre @ Fetch off lim (Some err2) # post"
    by simp_all
  from composite_failed_fetch_returns[OF run, of off lim err2] tr
  show "r = Return ()" by simp
  from composite_failure_ends[OF run] tr failure_ends_decompose
  show "\<exists>k. post = [Yielded ([], Some (Wrap ''fetching next page failed'' err2)) k]"
    by blast
  fix x k
  assume "Yielded x k \<in> set pre"
  with composite_stop_is_last[OF run] tr stop_is_last_prefix_accepted
  show k by blast
next
  fix m3 :: nat
  assume h: "advance k3 (c_pageFn cl3) (c_from cl3) (c_to cl3) (c_limit cl3) (c_it cl3)
        (c_total cl3) (c_offset cl3) yield3 w4 c4 = Some (pre3, it1, tot1, offset1, w5, c5) \<and>
    range_seq2 it1 yield3 c5 = (Exhausted, tr0, c6) \<and>
    \<not> tot1 \<le> wrap64 (offset1 + c_limit cl3) \<and>
    c_pageFn cl3 (c_from cl3) (c_to cl3) (wrap64 (offset1 + c_limit cl3)) (c_limit cl3) w5 =
      (Return (it2, tot2, Some err3), w6)"
    and m: "k3 < m3"
  from h have adv: "advance k3 (c_pageFn cl3) (c_from cl3) (c_to cl3) (c_limit cl3) (c_it cl3)
        (c_total cl3) (c_offset cl3) yield3 w4 c4 = Some (pre3, it1, tot1, offset1, w5, c5)"
    and rg: "range_seq2 it1 yield3 c5 = (Exhausted, tr0, c6)"
    and lt: "\<not> tot1 \<le> wrap64 (offset1 + c_limit cl3)"
    and pf: "c_pageFn cl3 (c_from cl3) (c_to cl3) (wrap64 (offset1 + c_limit cl3))
        (c_limit cl3) w5 = (Return (it2, tot2, Some err3), w6)"
    by simp_all
  from later_failure_terminates[OF adv rg lt pf m]
  show "range_paginated m3 (Composite cl3) yield3 w4 c4 =
          Some (Return (),
            pre3 @ tr0 @
              [Fetch (wrap64 (offset1 + c_limit cl3)) (c_limit cl3) (Some err3),
               Yielded ([], Some (Wrap ''fetching next page failed'' err3))
                 (fst (yield3 ([], Some (Wrap ''fetching next page failed'' err3)) c6))],
            w6, snd (yield3 ([], Some (Wrap ''fetching next page failed'' err3)) c6))"
    by simp
qed

theorem Paginate_error_handling_witness:
  "failingPageFunc None None 0 2 () = (Return (NilSeq, 0, Some (Err ''mock error'')), ()) \<and>
   Paginate failingPageFunc None None 0 2 () =
     (Return (Single NilSeq, Some (Wrap ''fetching first page failed'' (Err ''mock error''))),
      [Fetch 0 2 (Some (Err ''mock error''))], ()) \<and>
   Paginate (errorOnNextPageFunc [''item1'', ''item2'']) None None 0 3 () =
     (Return (Composite \<lparr>c_pageFn = errorOnNextPageFunc [''item1'', ''item2''], c_from = None,
                c_to = None, c_offset = 0, c_limit = 3,
                c_it = Seq [Emit ''item1'' None, Emit ''item2'' None], c_total = 4\<rparr>, None),
      [Fetch 0 3 None], ()) \<and>
   range_paginated 1
     (Composite \<lparr>c_pageFn = errorOnNextPageFunc [''item1'', ''item2''], c_from = None,
        c_to = None, c_offset = 0, c_limit = 3,
        c_it = Seq [Emit ''item1'' None, Emit ''item2'' None], c_total = 4\<rparr>) collect () [] =
     Some (Return (),
       [Yielded (''item1'', None) True, Yielded (''item2'', None) True] @
       Fetch 3 3 (Some (Err ''mock error on next page'')) #
       [Yielded ([], Some (Wrap ''fetching next page failed'' (Err ''mock error on next page'')))
          True],
       (),
       [(''item1'', None), (''item2'', None),
        ([], Some (Wrap ''fetching next page failed'' (Err ''mock error on next page'')))]) \<and>
   (\<exists>k. [Yielded ([], Some (Wrap ''fetching next page failed'' (Err ''mock error on next page'')))
          True] =
        [Yielded ([], Some (Wrap ''fetching next page failed'' (Err ''mock error on next page'')))
          k]) \<and>
   advance 1 (flakyPageFunc six_items 4) None None 2
       (Seq [Emit ''item1'' None, Emit ''item2'' None]) 6 0 collect () [] =
     Some ([Yielded (''item1'', None) True, Yielded (''item2'', None) True, Fetch 2 2 None],
           Seq [Emit ''item3'' None, Emit ''item4'' None], 6, 2, (),
           [(''item1'', None), (''item2'', None)]) \<and>
   range_seq2 (Seq [Emit ''item3'' None, Emit ''item4'' None]) collect
       [(''item1'', None), (''item2'', None)] =
     (Exhausted, [Yielded (''item3'', None) True, Yielded (''item4'', None) True],
      [(''item1'', None), (''item2'', None), (''item3'', None), (''item4'', None)]) \<and>
   \<not> (6::int) \<le> wrap64 (2 + 2) \<and>
   flakyPageFunc six_items 4 None None (wrap64 (2 + 2)) 2 () =
     (Return (NilSeq, 6, Some (Err ''mock error on next page'')), ()) \<and>
   (range_paginated 2
       (Composite \<lparr>c_pageFn = flakyPageFunc six_items 4, c_from = None, c_to = None,
        c_offset = 0, c_limit = 2, c_it = Seq [Emit ''item1'' None, Emit ''item2'' None],
        c_total = 6\<rparr>) collect () [] =
     Some (Return (),
       [Yielded (''item1'', None) True, Yielded (''item2'', None) True, Fetch 2 2 None,
        Yielded (''item3'', None) True, Yielded (''item4'', None) True,
        Fetch 4 2 (Some (Err ''mock error on next page'')),
        Yielded ([], Some (Wrap ''fetching next page failed'' (Err ''mock error on next page''))) True],
       (),
       [(''item1'', None), (''item2'', None), (''item3'', None), (''item4'', None),
        ([], Some (Wrap ''fetching next page failed'' (Err ''mock error on next page'')))]))"
proof -
  have h1: "failingPageFunc None None 0 2 () = (Return (NilSeq, 0, Some (Err ''mock error'')), ())"
    by (simp add: failingPageFunc_def)
  have h2: "range_paginated 1
     (Composite \<lparr>c_pageFn = errorOnNextPageFunc [''item1'', ''item2''], c_from = None,
        c_to = None, c_offset = 0, c_limit = 3,
        c_it = Seq [Emit ''item1'' None, Emit ''item2'' None], c_total = 4\<rparr>) collect () [] =
     Some (Return (),
       [Yielded (''item1'', None) True, Yielded (''item2'', None) True] @
       Fetch 3 3 (Some (Err ''mock error on next page'')) #
       [Yielded ([], Some (Wrap ''fetching next page failed'' (Err ''mock error on next page'')))
          True],
       (),
       [(''item1'', None), (''item2'', None),
        ([], Some (Wrap ''fetching next page failed'' (Err ''mock error on next page'')))])"
    by (simp add: errorOnNextPageFunc_def collect_def wrap64_def Let_def)
  have h3: "Paginate (errorOnNextPageFunc [''item1'', ''item2'']) None None 0 3 () =
     (Return (Composite \<lparr>c_pageFn = errorOnNextPageFunc [''item1'', ''item2''], c_from = None,
                c_to = None, c_offset = 0, c_limit = 3,
                c_it = Seq [Emit ''item1'' None, Emit ''item2'' None], c_total = 4\<rparr>, None),
      [Fetch 0 3 None], ())"
    by (simp add: Paginate_def errorOnNextPageFunc_def)
  have h4: "advance 1 (flakyPageFunc six_items 4) None None 2
       (Seq [Emit ''item1'' None, Emit ''item2'' None]) 6 0 collect () [] =
     Some ([Yielded (''item1'', None) True, Yielded (''item2'', None) True, Fetch 2 2 None],
           Seq [Emit ''item3'' None, Emit ''item4'' None], 6, 2, (),
           [(''item1'', None), (''item2'', None)])"
    by code_simp
  have h5: "range_seq2 (Seq [Emit ''item3'' None, Emit ''item4'' None]) collect
       [(''item1'', None), (''item2'', None)] =
     (Exhausted, [Yielded (''item3'', None) True, Yielded (''item4'', None) True],
      [(''item1'', None), (''item2'', None), (''item3'', None), (''item4'', None)])"
    by code_simp
  have h6: "\<not> (6::int) \<le> wrap64 (2 + 2)"
    by (simp add: wrap64_def)
  have h7: "flakyPageFunc six_items 4 None None (wrap64 (2 + 2)) 2 () =
     (Return (NilSeq, 6, Some (Err ''mock error on next page'')), ())"
    by (simp add: flakyPageFunc_def six_items_def wrap64_def)
  note inst = Paginate_error_handling
    [of failingPageFunc None None 0 2 "()" NilSeq 0 "Err ''mock error''" "()" 1
        "\<lparr>c_pageFn = errorOnNextPageFunc [''item1'', ''item2''], c_from = None,
        c_to = None, c_offset = 0, c_limit = 3,
        c_it = Seq [Emit ''item1'' None, Emit ''item2'' None], c_total = 4\<rparr>"
        collect "()" "[]" "Return ()" _ "()" _
        "[Yielded (''item1'', None) True, Yielded (''item2'', None) True]" 3 3
        "Err ''mock error on next page''"
        "[Yielded ([], Some (Wrap ''fetching next page failed'' (Err ''mock error on next page'')))
          True]"
        1 "\<lparr>c_pageFn = flakyPageFunc six_items 4, c_from = None, c_to = None,
        c_offset = 0, c_limit = 2, c_it = Seq [Emit ''item1'' None, Emit ''item2'' None],
        c_total = 6\<rparr>" collect "()" "[]"
        "[Yielded (''item1'', None) True, Yielded (''item2'', None) True, Fetch 2 2 None]"
        "Seq [Emit ''item3'' None, Emit ''item4'' None]" 6 2 "()"
        "[(''item1'', None), (''item2'', None)]"
        "[Yielded (''item3'', None) True, Yielded (''item4'', None) True]"
        "[(''item1'', None), (''item2'', None), (''item3'', None), (''item4'', None)]"
        NilSeq 6 "Err ''mock error on next page''" "()"]
  have every: "(\<forall>m>1. range_paginated m
       (Composite \<lparr>c_pageFn = flakyPageFunc six_items 4, c_from = None, c_to = None,
        c_offset = 0, c_limit = 2, c_it = Seq [Emit ''item1'' None, Emit ''item2'' None],
        c_total = 6\<rparr>) collect () [] =
     Some (Return (),
       [Yielded (''item1'', None) True, Yielded (''item2'', None) True, Fetch 2 2 None,
        Yielded (''item3'', None) True, Yielded (''item4'', None) True,
        Fetch 4 2 (Some (Err ''mock error on next page'')),
        Yielded ([], Some (Wrap ''fetching next page failed'' (Err ''mock error on next page''))) True],
       (),
       [(''item1'', None), (''item2'', None), (''item3'', None), (''item4'', None),
        ([], Some (Wrap ''fetching next page failed'' (Err ''mock error on next page'')))]))"
    using inst h4 h5 h6 h7 by (simp add: wrap64_def collect_def)
  then have part3: "range_paginated 2
       (Composite \<lparr>c_pageFn = flakyPageFunc six_items 4, c_from = None, c_to = None,
        c_offset = 0, c_limit = 2, c_it = Seq [Emit ''item1'' None, Emit ''item2'' None],
        c_total = 6\<rparr>) collect () [] =
     Some (Return (),
       [Yielded (''item1'', None) True, Yielded (''item2'', None) True, Fetch 2 2 None,
        Yielded (''item3'', None) True, Yielded (''item4'', None) True,
        Fetch 4 2 (Some (Err ''mock error on next page'')),
        Yielded ([], Some (Wrap ''fetching next page failed'' (Err ''mock error on next page''))) True],
       (),
       [(''item1'', None), (''item2'', None), (''item3'', None), (''item4'', None),
        ([], Some (Wrap ''fetching next page failed'' (Err ''mock error on next page'')))])"
    by simp
  from inst show ?thesis using h1 h2 h3 h4 h5 h6 h7 part3 by blast
qed

text \<open>
  C8. Once the consumer has answered \<open>False\<close> to a yielded pair, nothing follows in the
  trace (in particular no page-fetch call) and the sequence returns.
\<close>

theorem early_exit_stops_fetching:
  "range_paginated n ps yield w c = Some (r, tr, w', c') \<and> tr = pre @ Yielded x False # post \<longrightarrow>
     post = [] \<and> r = Return ()"
proof (intro impI)
  assume h: "range_paginated n ps yield w c = Some (r, tr, w', c') \<and> tr = pre @ Yielded x False # post"
  show "post = [] \<and> r = Return ()"
  proof (cases ps)
    case (Single it)
    obtain f tr0 c0 where rg: "range_seq2 it yield c = (f, tr0, c0)"
      by (cases "range_seq2 it yield c") auto
    from range_seq2_flow[OF rg] all_accepted_no_stop[of tr0 x] h Single rg
    show ?thesis
      by (cases f) (auto dest: stop_is_last_decompose)
  next
    case (Composite cl)
    with h have run: "composite n (c_pageFn cl) (c_from cl) (c_to cl) (c_limit cl) (c_it cl)
      (c_total cl) (c_offset cl) yield w c = Some (r, tr, w', c')"
      and tr: "tr = pre @ Yielded x False # post"
      by simp_all
    from composite_stop_is_last[OF run] tr have "post = []"
      by (auto dest: stop_is_last_decompose)
    moreover from composite_stop_returns[OF run, of x] tr have "r = Return ()" by simp
    ultimately show ?thesis by simp
  qed
qed

theorem early_exit_stops_fetching_witness:
  "range_paginated 3
     (Composite \<lparr>c_pageFn = mockPageFunc six_items, c_from = None, c_to = None,
        c_offset = 0, c_limit = 2, c_it = Seq [Emit ''item1'' None, Emit ''item2'' None],
        c_total = 6\<rparr>) (stop_after 3) () [] =
   Some (Return (),
     [Yielded (''item1'', None) True, Yielded (''item2'', None) True, Fetch 2 2 None] @
     Yielded (''item3'', None) False # [],
     (), [(''item1'', None), (''item2'', None), (''item3'', None)]) \<and>
   ([]::event list) = [] \<and> Return () = Return ()"
proof -
  have h: "range_paginated 3
     (Composite \<lparr>c_pageFn = mockPageFunc six_items, c_from = None, c_to = None,
        c_offset = 0, c_limit = 2, c_it = Seq [Emit ''item1'' None, Emit ''item2'' None],
        c_total = 6\<rparr>) (stop_after 3) () [] =
   Some (Return (),
     [Yielded (''item1'', None) True, Yielded (''item2'', None) True, Fetch 2 2 None] @
     Yielded (''item3'', None) False # [],
     (), [(''item1'', None), (''item2'', None), (''item3'', None)])"
    by code_simp
  from early_exit_stops_fetching
    [of 3 "Composite \<lparr>c_pageFn = mockPageFunc six_items, c_from = None, c_to = None,
        c_offset = 0, c_limit = 2, c_it = Seq [Emit ''item1'' None, Emit ''item2'' None],
        c_total = 6\<rparr>" "stop_after 3" "()" "[]" "Return ()" _ "()" _
        "[Yielded (''item1'', None) True, Yielded (''item2'', None) True, Fetch 2 2 None]"
        "(''item3'', None)" "[]"]
  show ?thesis using h by blast
qed

section \<open>Termination of the page combinator\<close>

lemma wrap64_id: "- (2 ^ 63) \<le> x \<Longrightarrow> x < 2 ^ 63 \<Longrightarrow> wrap64 x = x"
  by (simp add: wrap64_def)

lemma fetches_append: "fetches (a @ b) = fetches a + fetches b"
  by (simp add: fetches_def)

lemma ceil_step:
  fixes d l :: int
  assumes "1 \<le> l"
  shows "(d - l + l - 1) div l = (d + l - 1) div l - 1"
proof -
  have nz: "l \<noteq> 0" using assms by simp
  have e: "d + l - 1 = d - 1 + 1 * l" by simp
  have "(d + l - 1) div l = 1 + (d - 1) div l"
    by (subst e) (rule div_mult_self1[OF nz])
  then show ?thesis by simp
qed

lemma composite_terminates:
  assumes always: "\<forall>fr t off lim w. \<exists>it w'. pageFn fr t off lim w = (Return (it, T, None), w')"
    and lim: "1 \<le> limit" and "T + limit \<le> 2 ^ 63"
  shows "- (2 ^ 63) \<le> offset \<Longrightarrow> offset + limit < 2 ^ 63 \<Longrightarrow>
    \<exists>r tr w' c'. composite (Suc (nat (T - offset))) pageFn from to limit it T offset yield w c =
        Some (r, tr, w', c') \<and>
      int (fetches tr) \<le> max 0 ((T - offset + limit - 1) div limit - 1)"
proof (induction "nat (T - offset)" arbitrary: offset it w c rule: less_induct)
  case less
  obtain f tr0 c0 where rg: "range_seq2 it yield c = (f, tr0, c0)"
    by (cases "range_seq2 it yield c") auto
  have f0: "fetches tr0 = 0"
    using range_seq2_no_fetch[OF rg] by (simp add: fetches_def)
  have w: "wrap64 (offset + limit) = offset + limit"
    using less.prems lim by (intro wrap64_id) auto
  show ?case
  proof (cases "f = Exhausted \<and> offset + limit < T")
    case False
    then show ?thesis
      using rg f0 w by (cases f) (auto simp: Let_def)
  next
    case True
    let ?o = "offset + limit"
    obtain it' w1 where pf: "pageFn from to ?o limit w = (Return (it', T, None), w1)"
      using always by blast
    have small: "nat (T - ?o) < nat (T - offset)" using True lim by auto
    have "- (2 ^ 63) \<le> ?o" using less.prems lim by auto
    moreover have "?o + limit < 2 ^ 63" using True assms(3) by auto
    ultimately obtain r tr w' c' where
      run: "composite (Suc (nat (T - ?o))) pageFn from to limit it' T ?o yield w1 c0 =
        Some (r, tr, w', c')"
      and bound: "int (fetches tr) \<le> max 0 ((T - ?o + limit - 1) div limit - 1)"
      using less.hyps[OF small, of it' w1 c0] by blast
    have run': "composite (nat (T - offset)) pageFn from to limit it' T ?o yield w1 c0 =
        Some (r, tr, w', c')"
      using composite_fuel_mono[OF run, of "nat (T - offset)"] small by linarith
    have "0 < (T - ?o + limit - 1) div limit"
      using True lim by (subst pos_imp_zdiv_pos_iff) auto
    then have pos: "1 \<le> (T - ?o + limit - 1) div limit" by simp
    have "(T - ?o + limit - 1) div limit = (T - offset + limit - 1) div limit - 1"
      using ceil_step[OF lim, of "T - offset"] by (simp add: algebra_simps)
    with bound pos have "int (fetches (tr0 @ Fetch ?o limit None # tr)) \<le>
        max 0 ((T - offset + limit - 1) div limit - 1)"
      using f0 by (simp add: fetches_append) (simp add: fetches_def)
    then show ?thesis
      using rg True w pf run' by (simp add: Let_def)
  qed
qed

lemma overflow_cycle:
  "offset \<in> {0, 2 ^ 62, - (2 ^ 63), - (2 ^ 62)} \<Longrightarrow>
   composite n (emptyPageFunc (2 ^ 62 + 1)) None None (2 ^ 62) (Seq []) (2 ^ 62 + 1) offset
     collect () [] = None"
proof (induction n arbitrary: offset)
  case 0
  then show ?case by simp
next
  case (Suc n)
  have "wrap64 (offset + 2 ^ 62) \<in> {0, 2 ^ 62, - (2 ^ 63), - (2 ^ 62)}"
    using Suc.prems by (auto simp: wrap64_def)
  moreover have "\<not> wrap64 (offset + 2 ^ 62) \<ge> 2 ^ 62 + 1"
    using Suc.prems by (auto simp: wrap64_def)
  ultimately show ?case
    using Suc.IH[of "wrap64 (offset + 2 ^ 62)"]
    by (simp add: Let_def emptyPageFunc_def)
qed

lemma zero_limit_loops:
  "composite n (emptyPageFunc 1) None None 0 (Seq []) 1 0 collect () [] = None"
  by (induction n) (simp_all add: Let_def emptyPageFunc_def wrap64_def)

text \<open>
  C9 (amended). For a page function that succeeds on every call and always reports the same
  total \<open>T\<close>, for every limit of at least 1, and when neither \<open>offset + limit\<close> nor
  \<open>T + limit\<close> leaves the range of \<^verbatim>\<open>int\<close>, the sequence returned by \<^verbatim>\<open>Paginate\<close>
  terminates for every consumer; the calls made while ranging are at most
  \<open>max 0 \<lceil>(T - offset) / limit\<rceil>\<close>, and with the first call at most
  \<open>max 1 \<lceil>(T - offset) / limit\<rceil>\<close> (the ceiling written as
  \<open>(T - offset + limit - 1) div limit\<close>). With limit 0 the offset never advances: over
  a source of empty pages with total 1 the sequence does not terminate.
\<close>

theorem Paginate_terminates_without_overflow:
  "((\<forall>fr t off lim w. \<exists>it w'. pageFn fr t off lim w = (Return (it, T, None), w')) \<and>
    1 \<le> limit \<and> - (2 ^ 63) \<le> offset \<and> offset + limit < 2 ^ 63 \<and> T + limit \<le> 2 ^ 63 \<longrightarrow>
      (\<exists>ps w1 n r tr w2 c2.
          Paginate pageFn from to offset limit w =
            (Return (ps, None), [Fetch offset limit None], w1) \<and>
          (\<forall>m\<ge>n. range_paginated m ps yield w1 c = Some (r, tr, w2, c2)) \<and>
          int (fetches ([Fetch offset limit None] @ tr)) \<le>
            max 1 ((T - offset + limit - 1) div limit) \<and>
          int (fetches tr) \<le> max 0 ((T - offset + limit - 1) div limit))) \<and>
   Paginate (emptyPageFunc 1) None None 0 0 () =
     (Return (Composite \<lparr>c_pageFn = emptyPageFunc 1, c_from = None, c_to = None,
                c_offset = 0, c_limit = 0, c_it = Seq [], c_total = 1\<rparr>, None),
      [Fetch 0 0 None], ()) \<and>
   (\<forall>n. range_paginated n
       (Composite \<lparr>c_pageFn = emptyPageFunc 1, c_from = None, c_to = None,
          c_offset = 0, c_limit = 0, c_it = Seq [], c_total = 1\<rparr>) collect () [] = None)"
proof (intro conjI impI allI)
  assume h: "(\<forall>fr t off lim w. \<exists>it w'. pageFn fr t off lim w = (Return (it, T, None), w')) \<and>
    1 \<le> limit \<and> - (2 ^ 63) \<le> offset \<and> offset + limit < 2 ^ 63 \<and> T + limit \<le> 2 ^ 63"
  then obtain it w1 where first: "pageFn from to offset limit w = (Return (it, T, None), w1)"
    by blast
  show "\<exists>ps w1 n r tr w2 c2.
          Paginate pageFn from to offset limit w =
            (Return (ps, None), [Fetch offset limit None], w1) \<and>
          (\<forall>m\<ge>n. range_paginated m ps yield w1 c = Some (r, tr, w2, c2)) \<and>
          int (fetches ([Fetch offset limit None] @ tr)) \<le>
            max 1 ((T - offset + limit - 1) div limit) \<and>
          int (fetches tr) \<le> max 0 ((T - offset + limit - 1) div limit)"
  proof (cases "T \<le> limit")
    case True
    from range_single_no_fetch[of 0 it yield w1 c]
    obtain r tr c' where rg: "range_paginated 0 (Single it) yield w1 c = Some (r, tr, w1, c')"
      and f0: "fetches tr = 0" by blast
    have "\<forall>m\<ge>0. range_paginated m (Single it) yield w1 c = Some (r, tr, w1, c')"
      using rg by simp
    moreover have "Paginate pageFn from to offset limit w =
        (Return (Single it, None), [Fetch offset limit None], w1)"
      using first True by (simp add: Paginate_def)
    moreover have "int (fetches ([Fetch offset limit None] @ tr)) \<le>
        max 1 ((T - offset + limit - 1) div limit)"
      using f0 by (simp add: fetches_append) (simp add: fetches_def)
    moreover have "int (fetches tr) \<le> max 0 ((T - offset + limit - 1) div limit)"
      using f0 by simp
    ultimately show ?thesis by blast
  next
    case False
    let ?cl = "\<lparr>c_pageFn = pageFn, c_from = from, c_to = to, c_offset = offset,
      c_limit = limit, c_it = it, c_total = T\<rparr>"
    from composite_terminates[of pageFn T limit offset "from" to it yield w1 c] h
    obtain r tr w2 c2 where
      run: "composite (Suc (nat (T - offset))) pageFn from to limit it T offset yield w1 c =
        Some (r, tr, w2, c2)"
      and bound: "int (fetches tr) \<le> max 0 ((T - offset + limit - 1) div limit - 1)"
      by blast
    have "\<forall>m\<ge>Suc (nat (T - offset)). range_paginated m (Composite ?cl) yield w1 c =
        Some (r, tr, w2, c2)"
      using composite_fuel_mono[OF run] by simp
    moreover have "Paginate pageFn from to offset limit w =
        (Return (Composite ?cl, None), [Fetch offset limit None], w1)"
      using first False by (simp add: Paginate_def)
    moreover have "int (fetches ([Fetch offset limit None] @ tr)) \<le>
        max 1 ((T - offset + limit - 1) div limit)"
      using bound by (simp add: fetches_append) (simp add: fetches_def)
    moreover have "int (fetches tr) \<le> max 0 ((T - offset + limit - 1) div limit)"
      using bound by simp
    ultimately show ?thesis by blast
  qed
next
  show "Paginate (emptyPageFunc 1) None None 0 0 () =
     (Return (Composite \<lparr>c_pageFn = emptyPageFunc 1, c_from = None, c_to = None,
                c_offset = 0, c_limit = 0, c_it = Seq [], c_total = 1\<rparr>, None),
      [Fetch 0 0 None], ())"
    by (simp add: Paginate_def emptyPageFunc_def)
next
  fix n
  show "range_paginated n
       (Composite \<lparr>c_pageFn = emptyPageFunc 1, c_from = None, c_to = None,
          c_offset = 0, c_limit = 0, c_it = Seq [], c_total = 1\<rparr>) collect () [] = None"
    using zero_limit_loops[of n] by simp
qed

theorem Paginate_terminates_without_overflow_witness:
  "((\<forall>fr t off lim (w::unit). \<exists>it w'.
        mockPageFunc six_items fr t off lim w = (Return (it, 6, None), w')) \<and>
    (1::int) \<le> 2 \<and> - (2 ^ 63) \<le> (0::int) \<and> (0::int) + 2 < 2 ^ 63 \<and> (6::int) + 2 \<le> 2 ^ 63) \<and>
   (\<exists>ps w1 n r tr w2 c2.
       Paginate (mockPageFunc six_items) None None 0 2 () =
         (Return (ps, None), [Fetch 0 2 None], w1) \<and>
       (\<forall>m\<ge>n. range_paginated m ps collect w1 [] = Some (r, tr, w2, c2)) \<and>
       int (fetches ([Fetch 0 2 None] @ tr)) \<le> max 1 ((6 - 0 + 2 - 1) div 2) \<and>
       int (fetches tr) \<le> max 0 ((6 - 0 + 2 - 1) div 2))"
proof -
  have h: "(\<forall>fr t off lim (w::unit). \<exists>it w'.
        mockPageFunc six_items fr t off lim w = (Return (it, 6, None), w')) \<and>
    (1::int) \<le> 2 \<and> - (2 ^ 63) \<le> (0::int) \<and> (0::int) + 2 < 2 ^ 63 \<and> (6::int) + 2 \<le> 2 ^ 63"
    by (simp add: mockPageFunc_def six_items_def Let_def)
  from Paginate_terminates_without_overflow
    [of "mockPageFunc six_items" 6 2 0 None None "()" collect "[]"]
  show ?thesis using h by blast
qed

text \<open>
  C9 as stated fails: over a source of empty pages with total \<open>2 ^ 62 + 1\<close>, from
  offset 0 with limit \<open>2 ^ 62\<close>, the wrapping addition takes the offset through
  \<open>2 ^ 62\<close>, \<open>- (2 ^ 63)\<close>, \<open>- (2 ^ 62)\<close> and back to 0, never reaching the total,
  and the sequence does not terminate.
\<close>

theorem Paginate_overflow_never_terminates:
  "(\<forall>fr t off lim (w::unit). \<exists>it w'.
       emptyPageFunc (2 ^ 62 + 1) fr t off lim w = (Return (it, 2 ^ 62 + 1, None), w')) \<and>
   (1::int) \<le> 2 ^ 62 \<and>
   Paginate (emptyPageFunc (2 ^ 62 + 1)) None None 0 (2 ^ 62) () =
     (Return (Composite \<lparr>c_pageFn = emptyPageFunc (2 ^ 62 + 1), c_from = None, c_to = None,
                c_offset = 0, c_limit = 2 ^ 62, c_it = Seq [], c_total = 2 ^ 62 + 1\<rparr>, None),
      [Fetch 0 (2 ^ 62) None], ()) \<and>
   \<not> (\<exists>n r. range_paginated n
       (Composite \<lparr>c_pageFn = emptyPageFunc (2 ^ 62 + 1), c_from = None, c_to = None,
          c_offset = 0, c_limit = 2 ^ 62, c_it = Seq [], c_total = 2 ^ 62 + 1\<rparr>)
       collect () [] = Some r)"
proof (intro conjI)
  show "\<forall>fr t off lim (w::unit). \<exists>it w'.
       emptyPageFunc (2 ^ 62 + 1) fr t off lim w = (Return (it, 2 ^ 62 + 1, None), w')"
    by (simp add: emptyPageFunc_def)
  show "(1::int) \<le> 2 ^ 62" by simp
  show "Paginate (emptyPageFunc (2 ^ 62 + 1)) None None 0 (2 ^ 62) () =
     (Return (Composite \<lparr>c_pageFn = emptyPageFunc (2 ^ 62 + 1), c_from = None, c_to = None,
                c_offset = 0, c_limit = 2 ^ 62, c_it = Seq [], c_total = 2 ^ 62 + 1\<rparr>, None),
      [Fetch 0 (2 ^ 62) None], ())"
    by (simp add: Paginate_def emptyPageFunc_def)
  show "\<not> (\<exists>n r. range_paginated n
       (Composite \<lparr>c_pageFn = emptyPageFunc (2 ^ 62 + 1), c_from = None, c_to = None,
          c_offset = 0, c_limit = 2 ^ 62, c_it = Seq [], c_total = 2 ^ 62 + 1\<rparr>)
       collect () [] = Some r)"
    using overflow_cycle[of 0] by simp
qed

section \<open>Properties of the store wrapper\<close>

lemma filter_zinsert_same:
  "filter (\<lambda>(m', sc'). m' = m) z = [] \<Longrightarrow>
   filter (\<lambda>(m', sc'). m' = m) (zinsert (m, sc) z) = [(m, sc)]"
  by (induction z) auto

lemma filter_zinsert_other:
  "k \<noteq> m \<Longrightarrow>
   filter (\<lambda>(m', sc'). m' = k) (zinsert (m, sc) z) = filter (\<lambda>(m', sc'). m' = k) z"
  by (induction z) auto

lemma zadd_entry: "filter (\<lambda>(m', sc'). m' = m) (zadd sc m z) = [(m, sc)]"
  unfolding zadd_def by (rule filter_zinsert_same) (induction z, auto)

lemma zadd_other:
  "k \<noteq> m \<Longrightarrow> filter (\<lambda>(m', sc'). m' = k) (zadd sc m z) = filter (\<lambda>(m', sc'). m' = k) z"
  unfolding zadd_def by (simp add: filter_zinsert_other) (induction z, auto)

lemma set_zinsert: "set (zinsert x z) = insert x (set z)"
  by (induction x z rule: zinsert.induct) auto

lemma zmember_zadd: "zmember k (zadd sc m z) = (k = m \<or> zmember k z)"
  by (force simp: zmember_def zadd_def set_zinsert)

text \<open>What a successful pair of write commands does to the server.\<close>

lemma write_cmds_exec:
  assumes "exec_all (write_cmds r ts idSegs data) s = (reps, s')" and "first_error reps = None"
  shows "\<exists>z. zset_at s (namespacedKey r [lastModifiedIdxSuffix]) = Some z \<and>
           namespacedKey r idSegs \<noteq> namespacedKey r [lastModifiedIdxSuffix] \<and>
           reps = [Status ''OK'', Integer (if zmember (namespacedKey r idSegs) z then 0 else 1)] \<and>
           s' = s\<lparr>keyspace := (keyspace s)
                  (namespacedKey r idSegs \<mapsto> RString data,
                   namespacedKey r [lastModifiedIdxSuffix] \<mapsto>
                     RZSet (zadd (float64 ts) (namespacedKey r idSegs) z))\<rparr>"
  using assms
  by (auto simp: write_cmds_def Let_def zset_at_def
           split: option.splits rvalue.splits if_splits prod.splits)

lemma TxPipelined_success:
  assumes "TxPipelined cmds w = ((reps, None), w')"
  shows "reachable (incoming w) \<and>
         (\<exists>s'. exec_all cmds (incoming w) = (reps, s') \<and> first_error reps = None \<and>
               w' = w\<lparr>schedule := tl (schedule w), sent := sent w @ [Transaction cmds],
                       srv := s'\<rparr>)"
  using assms
  by (auto simp: TxPipelined_def round_trip_def Let_def
           split: prod.splits sum.splits reply.splits if_splits)

lemma Set_success:
  assumes "Set r data ts idSegs w = ((existed, None), w')"
  shows "\<exists>z. zset_at (incoming w) (namespacedKey r [lastModifiedIdxSuffix]) = Some z \<and>
           existed = zmember (namespacedKey r idSegs) z \<and>
           zset_at (srv w') (namespacedKey r [lastModifiedIdxSuffix]) =
             Some (zadd (float64 ts) (namespacedKey r idSegs) z) \<and>
           keyspace (srv w') (namespacedKey r idSegs) = Some (RString data)"
proof -
  from assms obtain reps where
    tx: "TxPipelined (write_cmds r ts idSegs data) w = ((reps, None), w')"
    and ex: "existed = (int_val reps 1 = 0)"
    by (auto simp: Set_def split: prod.splits option.splits)
  from TxPipelined_success[OF tx] obtain s' where
    run: "exec_all (write_cmds r ts idSegs data) (incoming w) = (reps, s')"
    and ok: "first_error reps = None" and w': "srv w' = s'"
    by auto
  from write_cmds_exec[OF run ok] ex w' show ?thesis
    by (auto simp: int_val_def zset_at_def split: if_splits)
qed

lemma exec_all_append:
  "exec_all (a @ b) s =
     (case exec_all a s of (ra, s1) \<Rightarrow> (case exec_all b s1 of (rb, s2) \<Rightarrow> (ra @ rb, s2)))"
  by (induction a arbitrary: s) (auto split: prod.splits)

lemma first_error_append:
  "first_error (a @ b) = None \<longleftrightarrow> first_error a = None \<and> first_error b = None"
  by (induction a rule: first_error.induct) auto

lemma write_cmds_index:
  assumes "exec_all (write_cmds r ts idSegs data) s = (reps, s')" and "first_error reps = None"
  shows "index_entries r s' k =
           (if k = namespacedKey r idSegs then [(k, float64 ts)] else index_entries r s k)"
  using write_cmds_exec[OF assms]
  by (auto simp: index_entries_def zset_at_def zadd_entry zadd_other)

lemma batch_preserves_others:
  "exec_all (concat (map (\<lambda>rec. write_cmds r (LastModified rec) (ID rec) (Data rec)) recs)) s =
     (reps, s') \<Longrightarrow>
   first_error reps = None \<Longrightarrow>
   k \<notin> (\<lambda>x. namespacedKey r (ID x)) ` set recs \<Longrightarrow>
   index_entries r s' k = index_entries r s k"
proof (induction recs arbitrary: s reps s')
  case Nil
  then show ?case by simp
next
  case (Cons rec recs)
  obtain ra s1 where a: "exec_all (write_cmds r (LastModified rec) (ID rec) (Data rec)) s = (ra, s1)"
    by (cases "exec_all (write_cmds r (LastModified rec) (ID rec) (Data rec)) s") auto
  obtain rb s2 where b:
    "exec_all (concat (map (\<lambda>rec. write_cmds r (LastModified rec) (ID rec) (Data rec)) recs)) s1 =
       (rb, s2)"
    by (cases "exec_all (concat (map (\<lambda>rec. write_cmds r (LastModified rec) (ID rec) (Data rec))
          recs)) s1") auto
  from Cons.prems(1) a b have eq: "reps = ra @ rb" "s' = s2"
    by (simp_all add: exec_all_append)
  with Cons.prems(2) have ok: "first_error ra = None" "first_error rb = None"
    by (simp_all add: first_error_append)
  have "index_entries r s2 k = index_entries r s1 k"
    using Cons.IH[OF b ok(2)] Cons.prems(3) by simp
  also have "\<dots> = index_entries r s k"
    using write_cmds_index[OF a ok(1), of k] Cons.prems(3) by simp
  finally show ?case using eq by simp
qed

lemma batch_last_write:
  assumes run: "exec_all (concat (map (\<lambda>rec. write_cmds r (LastModified rec) (ID rec) (Data rec))
      (pre @ rec # post))) s = (reps, s')"
    and ok: "first_error reps = None"
    and last: "namespacedKey r (ID rec) \<notin> (\<lambda>x. namespacedKey r (ID x)) ` set post"
  shows "index_entries r s' (namespacedKey r (ID rec)) =
           [(namespacedKey r (ID rec), float64 (LastModified rec))]"
proof -
  let ?wc = "\<lambda>rec. write_cmds r (LastModified rec) (ID rec) (Data rec)"
  obtain r0 s0 where p: "exec_all (concat (map ?wc pre)) s = (r0, s0)"
    by (cases "exec_all (concat (map ?wc pre)) s") auto
  obtain r1 s1 where a: "exec_all (?wc rec) s0 = (r1, s1)"
    by (cases "exec_all (?wc rec) s0") auto
  obtain r2 s2 where b: "exec_all (concat (map ?wc post)) s1 = (r2, s2)"
    by (cases "exec_all (concat (map ?wc post)) s1") auto
  from run p a b have eq: "reps = r0 @ r1 @ r2" "s' = s2"
    by (simp_all add: exec_all_append)
  with ok have oks: "first_error r1 = None" "first_error r2 = None"
    by (simp_all add: first_error_append)
  have "index_entries r s2 (namespacedKey r (ID rec)) =
        index_entries r s1 (namespacedKey r (ID rec))"
    by (rule batch_preserves_others[OF b oks(2) last])
  also have "\<dots> = [(namespacedKey r (ID rec), float64 (LastModified rec))]"
    using write_cmds_index[OF a oks(1), of "namespacedKey r (ID rec)"] by simp
  finally show ?thesis using eq by simp
qed

lemma float64_exact: "\<bar>n\<bar> \<le> 2 ^ 53 \<Longrightarrow> float64 n = n"
proof -
  assume h: "\<bar>n\<bar> \<le> 2 ^ 53"
  show ?thesis
  proof (cases "\<bar>n\<bar> = 2 ^ 53")
    case True
    then have "n = 9007199254740992 \<or> n = - 9007199254740992" by (simp add: abs_if split: if_splits)
    moreover have "float64 9007199254740992 = 9007199254740992" by code_simp
    moreover have "float64 (- 9007199254740992) = - 9007199254740992" by code_simp
    ultimately show ?thesis by auto
  next
    case False
    with h have lt: "\<bar>n\<bar> < 2 ^ 53" by simp
    have "filter (\<lambda>k. 2 ^ (53 + k) \<le> \<bar>n\<bar>) [0..<11] = []"
    proof (rule filter_False, rule ballI)
      fix k :: nat
      have "(2::int) ^ 53 \<le> 2 ^ (53 + k)" by (rule power_increasing) auto
      with lt show "\<not> 2 ^ (53 + k) \<le> \<bar>n\<bar>" by linarith
    qed
    then show ?thesis by (simp add: float64_def Let_def mult_sgn_abs)
  qed
qed

lemma BulkSet_success:
  assumes "BulkSet r recs w = (None, w')" and "recs \<noteq> []"
  shows "\<exists>reps. TxPipelined
           (concat (map (\<lambda>rec. write_cmds r (LastModified rec) (ID rec) (Data rec)) recs)) w =
         ((reps, None), w')"
  using assms by (auto simp: BulkSet_def split: prod.splits option.splits)

lemma Set_index:
  assumes "Set r data ts idSegs w = ((existed, None), w')"
  shows "index_entries r (srv w') k =
           (if k = namespacedKey r idSegs then [(k, float64 ts)]
            else index_entries r (incoming w) k)"
    and "existed = (index_entries r (incoming w) (namespacedKey r idSegs) \<noteq> [])"
proof -
  from Set_success[OF assms] obtain z where
    z: "zset_at (incoming w) (namespacedKey r [lastModifiedIdxSuffix]) = Some z"
    and ex: "existed = zmember (namespacedKey r idSegs) z"
    and z': "zset_at (srv w') (namespacedKey r [lastModifiedIdxSuffix]) =
             Some (zadd (float64 ts) (namespacedKey r idSegs) z)"
    by blast
  show "index_entries r (srv w') k =
           (if k = namespacedKey r idSegs then [(k, float64 ts)]
            else index_entries r (incoming w) k)"
    using z z' by (simp add: index_entries_def zadd_entry zadd_other)
  have "zmember (namespacedKey r idSegs) z =
        (filter (\<lambda>(m, sc). m = namespacedKey r idSegs) z \<noteq> [])"
    by (force simp: zmember_def filter_empty_conv)
  with ex z show "existed = (index_entries r (incoming w) (namespacedKey r idSegs) \<noteq> [])"
    by (simp add: index_entries_def)
qed

text \<open>
  C3 (amended). After a successful \<^verbatim>\<open>Set\<close> the Ordering Index holds exactly one entry for
  the key, whatever it held before, and its score is \<^verbatim>\<open>float64\<close> of the write's
  nanosecond timestamp. After a successful \<^verbatim>\<open>BulkSet\<close> the same holds for every record of
  the batch with the timestamp of the last record that writes the key. The score equals
  the timestamp itself when the timestamp is at most \<open>2 ^ 53\<close> in absolute value.
\<close>

theorem write_leaves_one_index_entry:
  "(Set r data ts idSegs w = ((existed, None), w') \<longrightarrow>
      index_entries r (srv w') (namespacedKey r idSegs) =
        [(namespacedKey r idSegs, float64 ts)]) \<and>
   (BulkSet r (pre @ rec # post) w2 = (None, w2') \<and>
    namespacedKey r (ID rec) \<notin> (\<lambda>x. namespacedKey r (ID x)) ` set post \<longrightarrow>
      index_entries r (srv w2') (namespacedKey r (ID rec)) =
        [(namespacedKey r (ID rec), float64 (LastModified rec))]) \<and>
   (\<bar>ts\<bar> \<le> 2 ^ 53 \<longrightarrow> float64 ts = ts)"
proof (intro conjI impI)
  assume "Set r data ts idSegs w = ((existed, None), w')"
  from Set_index(1)[OF this, of "namespacedKey r idSegs"]
  show "index_entries r (srv w') (namespacedKey r idSegs) =
        [(namespacedKey r idSegs, float64 ts)]"
    by simp
next
  assume h: "BulkSet r (pre @ rec # post) w2 = (None, w2') \<and>
    namespacedKey r (ID rec) \<notin> (\<lambda>x. namespacedKey r (ID x)) ` set post"
  then obtain reps where tx: "TxPipelined
      (concat (map (\<lambda>rec. write_cmds r (LastModified rec) (ID rec) (Data rec))
         (pre @ rec # post))) w2 = ((reps, None), w2')"
    using BulkSet_success[of r "pre @ rec # post" w2 w2'] by auto
  from TxPipelined_success[OF tx] obtain s' where
    run: "exec_all (concat (map (\<lambda>rec. write_cmds r (LastModified rec) (ID rec) (Data rec))
         (pre @ rec # post))) (incoming w2) = (reps, s')"
    and ok: "first_error reps = None" and s': "srv w2' = s'"
    by auto
  from batch_last_write[OF run ok] h s'
  show "index_entries r (srv w2') (namespacedKey r (ID rec)) =
        [(namespacedKey r (ID rec), float64 (LastModified rec))]"
    by simp
next
  assume "\<bar>ts\<bar> \<le> 2 ^ 53"
  then show "float64 ts = ts" by (rule float64_exact)
qed

theorem write_leaves_one_index_entry_witness:
  "Set example_store ''v'' 100 [''a''] empty_world = ((False, None), after_set) \<and>
   index_entries example_store (srv after_set) (namespacedKey example_store [''a'']) =
     [(namespacedKey example_store [''a''], float64 100)] \<and>
   fst (BulkSet example_store
      ([\<lparr>LastModified = 300, ID = [''b''], Data = ''x''\<rparr>,
        \<lparr>LastModified = 100, ID = [''c''], Data = ''y''\<rparr>] @
       \<lparr>LastModified = 50, ID = [''b''], Data = ''z''\<rparr> # []) after_set) = None \<and>
   namespacedKey example_store (ID \<lparr>LastModified = 50, ID = [''b''], Data = ''z''\<rparr>) \<notin>
     (\<lambda>x. namespacedKey example_store (ID x)) ` set [] \<and>
   index_entries example_store
     (srv (snd (BulkSet example_store
      ([\<lparr>LastModified = 300, ID = [''b''], Data = ''x''\<rparr>,
        \<lparr>LastModified = 100, ID = [''c''], Data = ''y''\<rparr>] @
       \<lparr>LastModified = 50, ID = [''b''], Data = ''z''\<rparr> # []) after_set)))
     (namespacedKey example_store (ID \<lparr>LastModified = 50, ID = [''b''], Data = ''z''\<rparr>)) =
     [(namespacedKey example_store (ID \<lparr>LastModified = 50, ID = [''b''], Data = ''z''\<rparr>),
       float64 (LastModified \<lparr>LastModified = 50, ID = [''b''], Data = ''z''\<rparr>))] \<and>
   \<bar>100 :: int\<bar> \<le> 2 ^ 53 \<and> float64 100 = 100"
proof -
  let ?recs = "[\<lparr>LastModified = 300, ID = [''b''], Data = ''x''\<rparr>,
        \<lparr>LastModified = 100, ID = [''c''], Data = ''y''\<rparr>] @
       \<lparr>LastModified = 50, ID = [''b''], Data = ''z''\<rparr> # []"
  have "fst (Set example_store ''v'' 100 [''a''] empty_world) = (False, None)"
    by code_simp
  then have h1: "Set example_store ''v'' 100 [''a''] empty_world = ((False, None), after_set)"
    by (simp add: after_set_def prod_eq_iff)
  have b: "fst (BulkSet example_store ?recs after_set) = None"
    by code_simp
  then have h2: "BulkSet example_store ?recs after_set =
      (None, snd (BulkSet example_store ?recs after_set))"
    by (simp add: prod_eq_iff)
  have h3: "\<bar>100 :: int\<bar> \<le> 2 ^ 53" by simp
  from write_leaves_one_index_entry
    [of example_store "''v''" 100 "[''a'']" empty_world False after_set
        "[\<lparr>LastModified = 300, ID = [''b''], Data = ''x''\<rparr>,
          \<lparr>LastModified = 100, ID = [''c''], Data = ''y''\<rparr>]"
        "\<lparr>LastModified = 50, ID = [''b''], Data = ''z''\<rparr>" "[]" after_set
        "snd (BulkSet example_store ?recs after_set)"]
  show ?thesis using h1 h2 h3 b by simp
qed

text \<open>
  C3 as stated fails: a write with the nanosecond timestamp 1700000000000000001 succeeds
  and leaves the score 1700000000000000000.
\<close>

theorem Set_score_is_rounded:
  "fst (Set example_store ''v'' 1700000000000000001 [''a''] empty_world) = (False, None) \<and>
   index_entries example_store
     (srv (snd (Set example_store ''v'' 1700000000000000001 [''a''] empty_world)))
     (namespacedKey example_store [''a'']) =
     [(''example|a'', 1700000000000000000)] \<and>
   (1700000000000000000 :: int) \<noteq> 1700000000000000001"
  by code_simp

lemma Set_schedule:
  assumes "Set r data ts idSegs w = ((existed, None), w')"
  shows "schedule w' = tl (schedule w)"
proof -
  from assms obtain reps where
    tx: "TxPipelined (write_cmds r ts idSegs data) w = ((reps, None), w')"
    by (auto simp: Set_def split: prod.splits option.splits)
  from TxPipelined_success[OF tx] show ?thesis by auto
qed

text \<open>
  What the boolean of a successful \<^verbatim>\<open>Set\<close> reports: whether the Ordering Index held an
  entry for the key when the write ran. Afterwards the index holds an entry for the key
  and for every key it held one for, so with no other client in between, a \<^verbatim>\<open>Set\<close> of
  a key without entry returns \<open>False\<close> and the next \<^verbatim>\<open>Set\<close> of the key returns
  \<open>True\<close>.
\<close>

lemma Set_existed_iff_index_entry:
  "(Set r data ts idSegs w = ((existed, None), w') \<longrightarrow>
      existed = (index_entries r (incoming w) (namespacedKey r idSegs) \<noteq> []) \<and>
      index_entries r (srv w') (namespacedKey r idSegs) \<noteq> [] \<and>
      (\<forall>k. index_entries r (incoming w) k \<noteq> [] \<longrightarrow> index_entries r (srv w') k \<noteq> [])) \<and>
   (schedule w1 = [] \<and> index_entries r (srv w1) (namespacedKey r idSegs) = [] \<and>
    Set r d1 t1 idSegs w1 = ((e1, None), w2) \<and> Set r d2 t2 idSegs w2 = ((e2, None), w3) \<longrightarrow>
      \<not> e1 \<and> e2)"
proof (intro conjI impI allI)
  assume h: "Set r data ts idSegs w = ((existed, None), w')"
  show "existed = (index_entries r (incoming w) (namespacedKey r idSegs) \<noteq> [])"
    by (rule Set_index(2)[OF h])
  show "index_entries r (srv w') (namespacedKey r idSegs) \<noteq> []"
    using Set_index(1)[OF h, of "namespacedKey r idSegs"] by simp
  fix k
  assume "index_entries r (incoming w) k \<noteq> []"
  then show "index_entries r (srv w') k \<noteq> []"
    using Set_index(1)[OF h, of k] by simp
next
  assume h: "schedule w1 = [] \<and> index_entries r (srv w1) (namespacedKey r idSegs) = [] \<and>
    Set r d1 t1 idSegs w1 = ((e1, None), w2) \<and> Set r d2 t2 idSegs w2 = ((e2, None), w3)"
  then have s1: "Set r d1 t1 idSegs w1 = ((e1, None), w2)"
    and s2: "Set r d2 t2 idSegs w2 = ((e2, None), w3)"
    and in1: "incoming w1 = srv w1"
    by (simp_all add: incoming_def)
  from Set_schedule[OF s1] h have in2: "incoming w2 = srv w2"
    by (simp add: incoming_def)
  show "\<not> e1" using Set_index(2)[OF s1] in1 h by simp
  show e2
    using Set_index(2)[OF s2] Set_index(1)[OF s1, of "namespacedKey r idSegs"] in2 by simp
qed

text \<open>
  C5 fails on the code. \<^verbatim>\<open>Set\<close> of the record \<open>a\<close>, a successful \<^verbatim>\<open>Delete\<close> of
  it and \<^verbatim>\<open>Set\<close> of it again, with no other client: after the \<^verbatim>\<open>Delete\<close> the record
  does not exist (\<^verbatim>\<open>Exists\<close> answers false, \<^verbatim>\<open>Get\<close> the absent value), so the second
  \<^verbatim>\<open>Set\<close> is the first write of a key that has no prior value, and it returns
  \<open>True\<close>, because the index entry the \<^verbatim>\<open>Delete\<close> left behind makes the upsert an
  update.
\<close>

theorem Set_after_Delete_reports_existed:
  "fst (Set example_store ''v'' 100 [''a''] empty_world) = (False, None) \<and>
   fst (Delete example_store [''a''] after_set) = None \<and>
   schedule after_delete = [] \<and>
   fst (Exists example_store [''a''] after_delete) = (False, None) \<and>
   fst (Get example_store [''a''] after_delete) = (None, None) \<and>
   index_entries example_store (srv after_delete) (namespacedKey example_store [''a'']) =
     [(''example|a'', 100)] \<and>
   fst (Set example_store ''v2'' 200 [''a''] after_delete) = (True, None)"
  by code_simp

text \<open>
  C1 fails on the code. \<^verbatim>\<open>Set\<close> of the record \<open>a\<close> followed by a successful
  \<^verbatim>\<open>Delete\<close> of it: the transaction sent is \<^verbatim>\<open>DEL\<close> of the composed key and
  \<^verbatim>\<open>ZREM\<close> of the segment \<open>a\<close>, the primary value is gone and the index entry of the
  composed key is still there.
\<close>

theorem Delete_keeps_index_entry:
  "fst (Set example_store ''v'' 100 [''a''] empty_world) = (False, None) \<and>
   fst (Delete example_store [''a''] after_set) = None \<and>
   sent after_delete =
     [Transaction [SET ''example|a'' ''v'', ZADD ''example|lmIdx'' 100 ''example|a''],
      Transaction [DEL ''example|a'', ZREM ''example|lmIdx'' [''a'']]] \<and>
   namespacedKey example_store [''a''] = ''example|a'' \<and>
   keyspace (srv after_delete) ''example|a'' = None \<and>
   index_entries example_store (srv after_delete) ''example|a'' = [(''example|a'', 100)]"
  by code_simp

text \<open>
  C2 fails on the code. With one entry in the index, offset 1 and limit 1, the count of the
  range is 1 and the selection is empty; the procedure returns the pair of 0 and the empty
  list, and \<^verbatim>\<open>FetchPageConsistent\<close> reports the total 0.
\<close>

theorem rangeScript_empty_selection_returns_zero:
  "fst (exec1 (ZCOUNT ''example|lmIdx'' NegInf PosInf) (srv after_set)) = Integer 1 \<and>
   fst (exec1 (ZRANGEBYSCORE ''example|lmIdx'' NegInf PosInf (Some (1, 1))) (srv after_set)) =
     Array [] \<and>
   rangeScript ''example|lmIdx'' NegInf PosInf 1 1 (srv after_set) =
     Array [Integer 0, Array []] \<and>
   fst (FetchPageConsistent None None 1 1 (example_store, after_set)) =
     Return (Seq [], 0, None)"
  by code_simp

text \<open>
  C4 fails on the code. When a selected member has no value in the primary store, the
  bulk fetch answers nil for it and ranging over the returned sequence panics at that
  value: in \<^verbatim>\<open>FetchPage\<close> when another client deletes the record between the selection
  and the bulk fetch, in \<^verbatim>\<open>FetchPageConsistent\<close> on the store left by \<^verbatim>\<open>Set\<close> and
  \<^verbatim>\<open>Delete\<close> of the record.
\<close>

theorem ranging_over_nil_value_panics:
  "fst (FetchPage example_store None None 0 10 deleted_meanwhile) =
     Return (Seq [Crash], 1, None) \<and>
   sent (snd (FetchPage example_store None None 0 10 deleted_meanwhile)) =
     [Transaction [SET ''example|a'' ''v'', ZADD ''example|lmIdx'' 100 ''example|a''],
      Command (ZCOUNT ''example|lmIdx'' NegInf PosInf),
      Command (ZRANGEBYSCORE ''example|lmIdx'' NegInf PosInf (Some (0, 10))),
      Command (MGET [''example|a''])] \<and>
   fst (FetchPageConsistent None None 0 10 (example_store, after_delete)) =
     Return (Seq [Crash], 1, None) \<and>
   values_seq [NilReply] = Seq [Crash] \<and>
   range_seq2 (Seq [Crash]) collect [] = (Panicked, [], [])"
  by code_simp

theorem ranging_over_nil_value_panics_witness:
  "fst (FetchPage example_store None None 0 10 deleted_meanwhile) =
     Return (Seq [Crash], 1, None) \<and>
   range_seq2 (Seq [Crash]) collect [] = (Panicked, [], [])"
  using ranging_over_nil_value_panics by blast

lemma Join_covers_segment: "x \<in> set xs \<Longrightarrow> length x \<le> length (Join xs sep)"
  by (induction xs sep rule: Join.induct) auto

lemma composed_key_is_no_segment:
  assumes "idDelimiter r \<noteq> []"
  shows "namespacedKey r idSegs \<notin> set idSegs"
proof
  assume "namespacedKey r idSegs \<in> set idSegs"
  from Join_covers_segment[OF this, of "idDelimiter r"] assms
  show False by (simp add: namespacedKey_def)
qed

text \<open>
  The defect behind C1 in general: with a delimiter that is not empty, the composed key is
  longer than every segment, so the members \<^verbatim>\<open>Delete\<close> removes from the index never
  include it. A successful \<^verbatim>\<open>Delete\<close> removes the primary value and leaves the index
  entries of the composed key as they were.
\<close>

lemma Delete_never_removes_own_entry:
  assumes delim: "idDelimiter r \<noteq> []"
    and noidx: "namespacedKey r idSegs \<noteq> namespacedKey r [lastModifiedIdxSuffix]"
    and del: "Delete r idSegs w = (None, w')"
  shows "keyspace (srv w') (namespacedKey r idSegs) = None"
    and "index_entries r (srv w') (namespacedKey r idSegs) =
         index_entries r (incoming w) (namespacedKey r idSegs)"
proof -
  let ?key = "namespacedKey r idSegs" and ?idx = "namespacedKey r [lastModifiedIdxSuffix]"
  from del obtain reps where
    tx: "TxPipelined [DEL ?key, ZREM ?idx idSegs] w = ((reps, None), w')"
    by (auto simp: Delete_def split: prod.splits option.splits)
  from TxPipelined_success[OF tx] obtain s' where
    run: "exec_all [DEL ?key, ZREM ?idx idSegs] (incoming w) = (reps, s')"
    and ok: "first_error reps = None" and s': "srv w' = s'"
    by auto
  have notin: "?key \<notin> set idSegs" by (rule composed_key_is_no_segment[OF delim])
  from run ok noidx obtain z where
    z: "zset_at (incoming w) ?idx = Some z"
    and st: "keyspace s' = (keyspace (incoming w))
        (?key := None,
         ?idx := (if filter (\<lambda>(m, sc). m \<notin> set idSegs) z = [] then None
                  else Some (RZSet (filter (\<lambda>(m, sc). m \<notin> set idSegs) z))))"
    by (auto simp: Let_def zset_at_def split: if_splits option.splits rvalue.splits)
  from st noidx show "keyspace (srv w') ?key = None"
    unfolding s' by simp
  have keep: "filter (\<lambda>(m, sc). m = ?key) (filter (\<lambda>(m, sc). m \<notin> set idSegs) z) =
      filter (\<lambda>(m, sc). m = ?key) z"
    using notin by (induction z) auto
  have "index_entries r s' ?key =
      filter (\<lambda>(m, sc). m = ?key) (filter (\<lambda>(m, sc). m \<notin> set idSegs) z)"
    using st by (simp add: index_entries_def zset_at_def del: filter_filter)
  also have "\<dots> = index_entries r (incoming w) ?key"
    using z by (simp only: keep index_entries_def option.case)
  finally show "index_entries r (srv w') ?key = index_entries r (incoming w) ?key"
    unfolding s' .
qed




end
